theory Spec2Isabelle
  imports Complex_Main "HOL-Library.Word"
begin

section \<open>PocPlot: axis projection, grid generation, spline interpolation\<close>

text \<open>
  A shallow embedding of the numeric core of PocPlot: \<^verbatim>\<open>pocaxis.c\<close> (bounds, automatic
  interval, projection, grid positions), \<^verbatim>\<open>pocspline.c\<close> (natural cubic spline) and the
  point handling of \<^verbatim>\<open>pocdataset.c\<close> and \<^verbatim>\<open>pocdatasetspline.c\<close>.
\<close>

subsection \<open>Values of type gdouble\<close>

text \<open>
  A \<^verbatim>\<open>gdouble\<close> is a finite number, an infinity or a NaN. Finite values are modelled by
  the real number they denote: arithmetic on them is exact (no rounding, no overflow), and
  the two zeros of IEEE 754 are one value. Everything else follows IEEE 754: an operation
  with a NaN operand gives NaN, \<open>\<infinity> - \<infinity>\<close>, \<open>0 * \<infinity>\<close>, \<open>0 / 0\<close> and \<open>\<infinity> / \<infinity>\<close> give
  NaN, a nonzero number divided by zero gives an infinity, every comparison with a NaN is
  false. A zero divisor is taken as \<open>+0\<close>: the divisors of this program that can vanish
  are differences of two numbers, which are \<open>+0\<close> when they are zero. The rounding of
  the operations is defined after them; the functions whose properties depend on it are
  given a second time in rounded arithmetic (suffix \<open>_ieee\<close>).
\<close>

datatype gdouble = Fin real | PInf | NInf | NaN

fun isfinite :: "gdouble \<Rightarrow> bool" where
  "isfinite (Fin a) = True"
| "isfinite _ = False"

fun dneg :: "gdouble \<Rightarrow> gdouble" where
  "dneg (Fin a) = Fin (- a)"
| "dneg PInf = NInf"
| "dneg NInf = PInf"
| "dneg NaN = NaN"

fun dadd :: "gdouble \<Rightarrow> gdouble \<Rightarrow> gdouble" where
  "dadd NaN _ = NaN"
| "dadd _ NaN = NaN"
| "dadd (Fin a) (Fin b) = Fin (a + b)"
| "dadd PInf NInf = NaN"
| "dadd NInf PInf = NaN"
| "dadd PInf _ = PInf"
| "dadd _ PInf = PInf"
| "dadd NInf _ = NInf"
| "dadd _ NInf = NInf"

definition dsub :: "gdouble \<Rightarrow> gdouble \<Rightarrow> gdouble" where
  "dsub a b = dadd a (dneg b)"

fun dmul :: "gdouble \<Rightarrow> gdouble \<Rightarrow> gdouble" where
  "dmul NaN _ = NaN"
| "dmul _ NaN = NaN"
| "dmul (Fin a) (Fin b) = Fin (a * b)"
| "dmul PInf (Fin b) = (if b = 0 then NaN else if 0 < b then PInf else NInf)"
| "dmul NInf (Fin b) = (if b = 0 then NaN else if 0 < b then NInf else PInf)"
| "dmul (Fin a) PInf = (if a = 0 then NaN else if 0 < a then PInf else NInf)"
| "dmul (Fin a) NInf = (if a = 0 then NaN else if 0 < a then NInf else PInf)"
| "dmul PInf PInf = PInf"
| "dmul PInf NInf = NInf"
| "dmul NInf PInf = NInf"
| "dmul NInf NInf = PInf"

fun ddiv :: "gdouble \<Rightarrow> gdouble \<Rightarrow> gdouble" where
  "ddiv NaN _ = NaN"
| "ddiv _ NaN = NaN"
| "ddiv (Fin a) (Fin b) =
     (if b \<noteq> 0 then Fin (a / b)
      else if a = 0 then NaN else if 0 < a then PInf else NInf)"
| "ddiv (Fin a) PInf = Fin 0"
| "ddiv (Fin a) NInf = Fin 0"
| "ddiv PInf (Fin b) = (if 0 \<le> b then PInf else NInf)"
| "ddiv NInf (Fin b) = (if 0 \<le> b then NInf else PInf)"
| "ddiv PInf PInf = NaN"
| "ddiv PInf NInf = NaN"
| "ddiv NInf PInf = NaN"
| "ddiv NInf NInf = NaN"

text \<open>The comparisons \<^verbatim>\<open><\<close>, \<^verbatim>\<open><=\<close>, \<^verbatim>\<open>>\<close>, \<^verbatim>\<open>>=\<close> and \<^verbatim>\<open>!=\<close> of C.\<close>

fun dlt :: "gdouble \<Rightarrow> gdouble \<Rightarrow> bool" where
  "dlt NaN _ = False"
| "dlt _ NaN = False"
| "dlt (Fin a) (Fin b) = (a < b)"
| "dlt NInf NInf = False"
| "dlt NInf _ = True"
| "dlt PInf _ = False"
| "dlt (Fin a) PInf = True"
| "dlt (Fin a) NInf = False"

fun dle :: "gdouble \<Rightarrow> gdouble \<Rightarrow> bool" where
  "dle NaN _ = False"
| "dle _ NaN = False"
| "dle (Fin a) (Fin b) = (a \<le> b)"
| "dle NInf _ = True"
| "dle PInf PInf = True"
| "dle PInf _ = False"
| "dle (Fin a) PInf = True"
| "dle (Fin a) NInf = False"

definition dgt :: "gdouble \<Rightarrow> gdouble \<Rightarrow> bool" where
  "dgt a b = dlt b a"

definition dge :: "gdouble \<Rightarrow> gdouble \<Rightarrow> bool" where
  "dge a b = dle b a"

definition dne :: "gdouble \<Rightarrow> gdouble \<Rightarrow> bool" where
  "dne a b = (a = NaN \<or> b = NaN \<or> a \<noteq> b)"

text \<open>
  \<^verbatim>\<open>log2\<close> and \<^verbatim>\<open>log10\<close> (\<open>dlog 2\<close>, \<open>dlog 10\<close>): the logarithm of zero is \<open>-\<infinity>\<close>, that of
  a negative number is NaN. \<^verbatim>\<open>exp2\<close> and \<^verbatim>\<open>exp10\<close> (\<open>dexp 2\<close>, \<open>dexp 10\<close>), \<^verbatim>\<open>floor\<close> and
  \<^verbatim>\<open>ceil\<close>.
\<close>

fun dlog :: "real \<Rightarrow> gdouble \<Rightarrow> gdouble" where
  "dlog b (Fin a) = (if 0 < a then Fin (log b a) else if a = 0 then NInf else NaN)"
| "dlog b PInf = PInf"
| "dlog b NInf = NaN"
| "dlog b NaN = NaN"

fun dexp :: "real \<Rightarrow> gdouble \<Rightarrow> gdouble" where
  "dexp b (Fin a) = Fin (b powr a)"
| "dexp b PInf = PInf"
| "dexp b NInf = Fin 0"
| "dexp b NaN = NaN"

fun dfloor :: "gdouble \<Rightarrow> gdouble" where
  "dfloor (Fin a) = Fin (of_int \<lfloor>a\<rfloor>)"
| "dfloor a = a"

fun dceil :: "gdouble \<Rightarrow> gdouble" where
  "dceil (Fin a) = Fin (of_int \<lceil>a\<rceil>)"
| "dceil a = a"

text \<open>
  Integers converted to \<^verbatim>\<open>gdouble\<close>. A \<^verbatim>\<open>guint\<close> is a 32-bit word. A \<^verbatim>\<open>gint\<close> is modelled
  as an integer: the only arithmetic this code does on one is the negation in
  \<^verbatim>\<open>poc_axis_linear_project\<close>, which is exact for every \<^verbatim>\<open>gint\<close> but the least.
\<close>

type_synonym guint = "32 word"

definition gint_to_double :: "int \<Rightarrow> gdouble" where
  "gint_to_double n = Fin (of_int n)"

definition guint_to_double :: "guint \<Rightarrow> gdouble" where
  "guint_to_double n = Fin (of_nat (unat n))"

subsection \<open>Rounding to binary64\<close>

text \<open>
  The operations of the program round. Each of \<^verbatim>\<open>+\<close>, \<^verbatim>\<open>-\<close>, \<^verbatim>\<open>*\<close>, \<^verbatim>\<open>/\<close> on \<^verbatim>\<open>gdouble\<close>
  returns the binary64 number nearest to the exact result, and of two nearest ones the
  one with the even significand (the default rounding of IEEE 754, every operation
  rounded on its own, in double precision). \<open>round_to_binary64\<close> rounds a real number to
  53 significant bits; the exponent does not go below that of the subnormal numbers, so
  the spacing there is \<open>2 powi (- 1074)\<close>. A rounded result beyond \<^verbatim>\<open>DBL_MAX\<close> is an infinity.
  \<open>fadd\<close>, \<open>fsub\<close>, \<open>fmul\<close>, \<open>fdiv\<close> are the four operations with their rounding;
  \<open>dadd\<close>, \<open>dsub\<close>, \<open>dmul\<close>, \<open>ddiv\<close> above are the same operations without it.
\<close>

definition round_half_even :: "real \<Rightarrow> int" where
  "round_half_even x =
     (let f = \<lfloor>x\<rfloor>; r = x - of_int f
      in if r < 1 / 2 then f else if 1 / 2 < r then f + 1 else if even f then f else f + 1)"

definition binary64_exponent :: "real \<Rightarrow> int" where
  "binary64_exponent x = max \<lfloor>log 2 \<bar>x\<bar>\<rfloor> (- 1022)"

definition round_to_binary64 :: "real \<Rightarrow> real" where
  "round_to_binary64 x =
     (if x = 0 then 0
      else (let q = 2 powi (binary64_exponent x - 52)
            in of_int (round_half_even (x / q)) * q))"

definition DBL_MAX :: real where
  "DBL_MAX = (2 ^ 53 - 1) * 2 ^ 971"

fun dround :: "gdouble \<Rightarrow> gdouble" where
  "dround (Fin x) =
     (let r = round_to_binary64 x
      in if DBL_MAX < \<bar>r\<bar> then (if 0 < x then PInf else NInf) else Fin r)"
| "dround a = a"

definition fadd :: "gdouble \<Rightarrow> gdouble \<Rightarrow> gdouble" where
  "fadd a b = dround (dadd a b)"

definition fsub :: "gdouble \<Rightarrow> gdouble \<Rightarrow> gdouble" where
  "fsub a b = dround (dsub a b)"

definition fmul :: "gdouble \<Rightarrow> gdouble \<Rightarrow> gdouble" where
  "fmul a b = dround (dmul a b)"

definition fdiv :: "gdouble \<Rightarrow> gdouble \<Rightarrow> gdouble" where
  "fdiv a b = dround (ddiv a b)"

subsection \<open>The axis (pocaxis.c)\<close>

datatype PocAxisMode = POC_AXIS_LINEAR | POC_AXIS_LOG_OCTAVE | POC_AXIS_LOG_DECADE

text \<open>
  The properties of a \<^verbatim>\<open>GtkAdjustment\<close> that the axis reads and writes through the
  \<^verbatim>\<open>gtk_adjustment_*\<close> calls. The adjustment belongs to GTK; the axis holds a reference.
\<close>

record GtkAdjustment =
  adj_value :: gdouble
  adj_lower :: gdouble
  adj_upper :: gdouble
  adj_step_increment :: gdouble
  adj_page_increment :: gdouble
  adj_page_size :: gdouble

text \<open>
  \<^verbatim>\<open>struct _PocAxisPrivate\<close>, without the fields that only the rendering of ticks, labels
  and legend reads (\<^verbatim>\<open>tick_size\<close>, \<^verbatim>\<open>label_size\<close>, \<^verbatim>\<open>major_grid\<close>, \<^verbatim>\<open>minor_grid\<close>,
  \<^verbatim>\<open>legend\<close>, \<^verbatim>\<open>legend_size\<close>) and the two signal handler ids, which are set exactly
  while an adjustment is attached.
\<close>

record PocAxisPrivate =
  axis_mode :: PocAxisMode
  lower_bound :: gdouble
  upper_bound :: gdouble
  major_interval :: gdouble
  auto_interval :: bool
  minor_divisions :: guint
  adjustment :: "GtkAdjustment option"
  lower_mode :: gdouble
  upper_mode :: gdouble
  minor_interval :: gdouble

text \<open>\<^verbatim>\<open>poc_axis_update_bounds\<close>: swap inverted bounds, transform the bounds into the
  mode's space, choose the automatic major interval, derive the minor interval.\<close>

definition poc_axis_update_bounds :: "PocAxisPrivate \<Rightarrow> PocAxisPrivate" where
  "poc_axis_update_bounds priv0 =
    (let priv1 =
           (if dlt (upper_bound priv0) (lower_bound priv0)
            then priv0\<lparr>lower_bound := upper_bound priv0, upper_bound := lower_bound priv0\<rparr>
            else priv0);
         priv2 =
           (case axis_mode priv1 of
              POC_AXIS_LINEAR \<Rightarrow>
                priv1\<lparr>lower_mode := lower_bound priv1, upper_mode := upper_bound priv1\<rparr>
            | POC_AXIS_LOG_OCTAVE \<Rightarrow>
                priv1\<lparr>lower_mode := dlog 2 (lower_bound priv1),
                      upper_mode := dlog 2 (upper_bound priv1)\<rparr>
            | POC_AXIS_LOG_DECADE \<Rightarrow>
                priv1\<lparr>lower_mode := dlog 10 (lower_bound priv1),
                      upper_mode := dlog 10 (upper_bound priv1)\<rparr>);
         priv3 =
           (if auto_interval priv2
            then (let interval = dsub (upper_mode priv2) (lower_mode priv2)
                  in priv2\<lparr>major_interval :=
                       (if dge interval (Fin 10000) then Fin 10000
                        else if dge interval (Fin 1000) then Fin 1000
                        else if dge interval (Fin 100) then Fin 100
                        else if dge interval (Fin 10) then Fin 10
                        else Fin 1)\<rparr>)
            else priv2)
     in if minor_divisions priv3 \<noteq> 0
        then priv3\<lparr>minor_interval :=
               ddiv (major_interval priv3) (guint_to_double (minor_divisions priv3))\<rparr>
        else priv3)"

text \<open>\<^verbatim>\<open>poc_axis_init\<close>: the state of a new axis. The instance memory is zeroed before the
  fields are set, so \<^verbatim>\<open>minor_interval\<close> starts at zero and there is no adjustment.\<close>

definition poc_axis_init :: PocAxisPrivate where
  "poc_axis_init =
     poc_axis_update_bounds
       \<lparr>axis_mode = POC_AXIS_LINEAR, lower_bound = Fin 0, upper_bound = Fin 1,
        major_interval = Fin 10, auto_interval = True, minor_divisions = 5,
        adjustment = None, lower_mode = Fin 0, upper_mode = Fin 1,
        minor_interval = Fin 0\<rparr>"

definition poc_axis_configure ::
  "PocAxisPrivate \<Rightarrow> PocAxisMode \<Rightarrow> gdouble \<Rightarrow> gdouble \<Rightarrow> PocAxisPrivate" where
  "poc_axis_configure priv mode lower upper =
     poc_axis_update_bounds
       (priv\<lparr>lower_bound := lower, upper_bound := upper, axis_mode := mode\<rparr>)"

definition poc_axis_set_axis_mode :: "PocAxisPrivate \<Rightarrow> PocAxisMode \<Rightarrow> PocAxisPrivate" where
  "poc_axis_set_axis_mode priv mode = poc_axis_update_bounds (priv\<lparr>axis_mode := mode\<rparr>)"

text \<open>
  The handlers of the adjustment's signals \<^verbatim>\<open>value-changed\<close> and \<^verbatim>\<open>changed\<close>. They are
  connected while an adjustment is attached, and GTK calls them with that adjustment in
  its current state, which the axis then also sees through its reference
  (\<open>adjustment := Some adj\<close>).
\<close>

definition poc_axis_adj_value_changed :: "GtkAdjustment \<Rightarrow> PocAxisPrivate \<Rightarrow> PocAxisPrivate" where
  "poc_axis_adj_value_changed adj priv =
     priv\<lparr>adjustment := Some adj,
          lower_mode := adj_value adj,
          upper_mode := dadd (adj_value adj) (adj_page_size adj)\<rparr>"

definition poc_axis_adj_changed :: "GtkAdjustment \<Rightarrow> PocAxisPrivate \<Rightarrow> PocAxisPrivate" where
  "poc_axis_adj_changed adj priv =
     (let (lower, upper) =
            (case axis_mode priv of
               POC_AXIS_LOG_OCTAVE \<Rightarrow> (dexp 2 (adj_lower adj), dexp 2 (adj_upper adj))
             | POC_AXIS_LOG_DECADE \<Rightarrow> (dexp 10 (adj_lower adj), dexp 10 (adj_upper adj))
             | POC_AXIS_LINEAR \<Rightarrow> (adj_lower adj, adj_upper adj))
      in poc_axis_adj_value_changed adj (priv\<lparr>lower_bound := lower, upper_bound := upper\<rparr>))"

text \<open>
  \<^verbatim>\<open>gtk_adjustment_set_lower\<close> and \<^verbatim>\<open>gtk_adjustment_set_upper\<close> belong to GTK. They set
  the property when the new value differs from the old one (\<^verbatim>\<open>!=\<close>), and the adjustment
  then emits its signal \<^verbatim>\<open>changed\<close> before the call returns. The result is the
  adjustment and whether the signal was emitted.
\<close>

definition gtk_adjustment_set_lower :: "GtkAdjustment \<Rightarrow> gdouble \<Rightarrow> GtkAdjustment \<times> bool" where
  "gtk_adjustment_set_lower adj lower =
     (if dne lower (adj_lower adj) then (adj\<lparr>adj_lower := lower\<rparr>, True) else (adj, False))"

definition gtk_adjustment_set_upper :: "GtkAdjustment \<Rightarrow> gdouble \<Rightarrow> GtkAdjustment \<times> bool" where
  "gtk_adjustment_set_upper adj upper =
     (if dne upper (adj_upper adj) then (adj\<lparr>adj_upper := upper\<rparr>, True) else (adj, False))"

text \<open>
  The setters of the bounds pass the new mode-space bound on to an attached adjustment.
  \<^verbatim>\<open>poc_axis_set_adjustment\<close> has connected \<^verbatim>\<open>poc_axis_adj_changed\<close> to the signal
  \<^verbatim>\<open>changed\<close> of that adjustment, so the handler runs inside the GTK call when the signal
  is emitted.
\<close>

definition poc_axis_set_lower_bound :: "PocAxisPrivate \<Rightarrow> gdouble \<Rightarrow> PocAxisPrivate" where
  "poc_axis_set_lower_bound priv bound =
     (let priv1 = poc_axis_update_bounds (priv\<lparr>lower_bound := bound\<rparr>)
      in case adjustment priv1 of
           None \<Rightarrow> priv1
         | Some adj \<Rightarrow>
             (let (adj', emitted) = gtk_adjustment_set_lower adj (lower_mode priv1)
              in if emitted then poc_axis_adj_changed adj' priv1
                 else priv1\<lparr>adjustment := Some adj'\<rparr>))"

definition poc_axis_set_upper_bound :: "PocAxisPrivate \<Rightarrow> gdouble \<Rightarrow> PocAxisPrivate" where
  "poc_axis_set_upper_bound priv bound =
     (let priv1 = poc_axis_update_bounds (priv\<lparr>upper_bound := bound\<rparr>)
      in case adjustment priv1 of
           None \<Rightarrow> priv1
         | Some adj \<Rightarrow>
             (let (adj', emitted) = gtk_adjustment_set_upper adj (upper_mode priv1)
              in if emitted then poc_axis_adj_changed adj' priv1
                 else priv1\<lparr>adjustment := Some adj'\<rparr>))"

definition poc_axis_set_major_interval :: "PocAxisPrivate \<Rightarrow> gdouble \<Rightarrow> PocAxisPrivate" where
  "poc_axis_set_major_interval priv interval =
     poc_axis_update_bounds (priv\<lparr>major_interval := interval, auto_interval := False\<rparr>)"

definition poc_axis_set_auto_interval :: "PocAxisPrivate \<Rightarrow> bool \<Rightarrow> PocAxisPrivate" where
  "poc_axis_set_auto_interval priv enabled =
     poc_axis_update_bounds (priv\<lparr>auto_interval := enabled\<rparr>)"

definition poc_axis_set_minor_divisions :: "PocAxisPrivate \<Rightarrow> guint \<Rightarrow> PocAxisPrivate" where
  "poc_axis_set_minor_divisions priv divisions =
     poc_axis_update_bounds (priv\<lparr>minor_divisions := divisions\<rparr>)"

text \<open>
  \<^verbatim>\<open>poc_axis_set_adjustment\<close>: attach an adjustment (and configure it from the axis), or
  detach the current one (\<^verbatim>\<open>NULL\<close>). \<^verbatim>\<open>gtk_adjustment_configure\<close> sets the six
  properties; the value it is given is the lower bound, which GTK's clamping to
  \<open>[lower, upper - page_size]\<close> leaves as it is. The handlers of the previous adjustment
  are disconnected before, and those of the new one are connected after the
  configuration, so no handler of the axis runs inside this call.
\<close>

definition poc_axis_set_adjustment ::
  "PocAxisPrivate \<Rightarrow> GtkAdjustment option \<Rightarrow> PocAxisPrivate" where
  "poc_axis_set_adjustment priv new_adjustment =
     (case new_adjustment of
        None \<Rightarrow> priv\<lparr>adjustment := None\<rparr>
      | Some _ \<Rightarrow>
          (let priv1 = poc_axis_update_bounds (priv\<lparr>adjustment := new_adjustment\<rparr>);
               page_size = dsub (upper_mode priv1) (lower_mode priv1)
           in priv1\<lparr>adjustment := Some
                \<lparr>adj_value = lower_mode priv1, adj_lower = lower_mode priv1,
                 adj_upper = upper_mode priv1,
                 adj_step_increment = ddiv page_size (Fin 10),
                 adj_page_increment = ddiv page_size (Fin 2),
                 adj_page_size = page_size\<rparr>\<rparr>))"

definition poc_axis_get_range :: "PocAxisPrivate \<Rightarrow> gdouble \<times> gdouble" where
  "poc_axis_get_range priv = (lower_bound priv, upper_bound priv)"

definition poc_axis_get_display_range :: "PocAxisPrivate \<Rightarrow> gdouble \<times> gdouble" where
  "poc_axis_get_display_range priv =
     (case adjustment priv of
        Some adj \<Rightarrow>
          (let v = adj_value adj; page_size = adj_page_size adj
           in case axis_mode priv of
                POC_AXIS_LINEAR \<Rightarrow> (v, dadd v page_size)
              | POC_AXIS_LOG_OCTAVE \<Rightarrow> (dexp 2 v, dexp 2 (dadd v page_size))
              | POC_AXIS_LOG_DECADE \<Rightarrow> (dexp 10 v, dexp 10 (dadd v page_size)))
      | None \<Rightarrow> poc_axis_get_range priv)"

text \<open>Projection of a value to a pixel position.\<close>

definition poc_axis_linear_project :: "PocAxisPrivate \<Rightarrow> gdouble \<Rightarrow> int \<Rightarrow> gdouble" where
  "poc_axis_linear_project priv v nrm =
     (let scale = dsub (gint_to_double (if nrm < 0 then - nrm else nrm)) (Fin 1);
          v1 = ddiv (dsub v (lower_mode priv)) (dsub (upper_mode priv) (lower_mode priv))
      in if nrm < 0 then dmul (dsub (Fin 1) v1) scale else dmul v1 scale)"

definition poc_axis_project :: "PocAxisPrivate \<Rightarrow> gdouble \<Rightarrow> int \<Rightarrow> gdouble" where
  "poc_axis_project priv v nrm =
     poc_axis_linear_project priv
       (case axis_mode priv of
          POC_AXIS_LINEAR \<Rightarrow> v
        | POC_AXIS_LOG_OCTAVE \<Rightarrow> dlog 2 v
        | POC_AXIS_LOG_DECADE \<Rightarrow> dlog 10 v)
       nrm"

text \<open>
  The projection in rounded arithmetic. \<^verbatim>\<open>poc_axis_project\<close> calls the C library's
  \<^verbatim>\<open>log2\<close> and \<^verbatim>\<open>log10\<close>, whose last digit the C standard leaves to the library: the
  logarithm is the parameter \<open>lg\<close> (base and argument).
\<close>

definition poc_axis_linear_project_ieee :: "PocAxisPrivate \<Rightarrow> gdouble \<Rightarrow> int \<Rightarrow> gdouble" where
  "poc_axis_linear_project_ieee priv v nrm =
     (let scale = fsub (gint_to_double (if nrm < 0 then - nrm else nrm)) (Fin 1);
          v1 = fdiv (fsub v (lower_mode priv)) (fsub (upper_mode priv) (lower_mode priv))
      in if nrm < 0 then fmul (fsub (Fin 1) v1) scale else fmul v1 scale)"

definition poc_axis_project_ieee ::
  "(real \<Rightarrow> gdouble \<Rightarrow> gdouble) \<Rightarrow> PocAxisPrivate \<Rightarrow> gdouble \<Rightarrow> int \<Rightarrow> gdouble" where
  "poc_axis_project_ieee lg priv v nrm =
     poc_axis_linear_project_ieee priv
       (case axis_mode priv of
          POC_AXIS_LINEAR \<Rightarrow> v
        | POC_AXIS_LOG_OCTAVE \<Rightarrow> lg 2 v
        | POC_AXIS_LOG_DECADE \<Rightarrow> lg 10 v)
       nrm"

text \<open>
  \<^verbatim>\<open>poc_axis_draw_grid\<close>. The canvas is modelled by the grid lines the function asks
  for: the mode-space position \<^verbatim>\<open>xy\<close> of every call of \<^verbatim>\<open>poc_axis_draw_grid_line\<close>, in
  order, the major lines (stroked first) apart from the minor lines. The loops run on
  \<^verbatim>\<open>gdouble\<close> counters and need not end: not returning is the value \<open>None\<close>.
\<close>

partial_function (option) grid_major_loop ::
  "gdouble \<Rightarrow> gdouble \<Rightarrow> gdouble \<Rightarrow> gdouble list \<Rightarrow> gdouble list option" where
  "grid_major_loop interval limit xy path =
     (if dle xy limit
      then grid_major_loop interval limit (dadd xy interval) (path @ [xy])
      else Some path)"

partial_function (option) grid_decade_loop ::
  "gdouble \<Rightarrow> gdouble \<Rightarrow> gdouble list \<Rightarrow> gdouble list option" where
  "grid_decade_loop xy mxy path =
     (if dlt mxy (Fin 10)
      then grid_decade_loop xy (dadd mxy (Fin 1)) (path @ [dadd xy (dlog 10 mxy)])
      else Some path)"

partial_function (option) grid_division_loop ::
  "PocAxisPrivate \<Rightarrow> gdouble \<Rightarrow> gdouble \<Rightarrow> gdouble list \<Rightarrow> gdouble list option" where
  "grid_division_loop priv xy mxy path =
     (if dlt mxy (major_interval priv)
      then grid_division_loop priv xy (dadd mxy (minor_interval priv)) (path @ [dadd xy mxy])
      else Some path)"

partial_function (option) grid_minor_loop ::
  "PocAxisPrivate \<Rightarrow> gdouble \<Rightarrow> gdouble list \<Rightarrow> gdouble list option" where
  "grid_minor_loop priv xy path =
     (if dle xy (upper_mode priv)
      then Option.bind
             (if axis_mode priv = POC_AXIS_LOG_DECADE
              then grid_decade_loop xy (Fin 2) path
              else grid_division_loop priv xy (minor_interval priv) path)
             (\<lambda>path'. grid_minor_loop priv (dadd xy (major_interval priv)) path')
      else Some path)"

definition poc_axis_draw_grid :: "PocAxisPrivate \<Rightarrow> (gdouble list \<times> gdouble list) option" where
  "poc_axis_draw_grid priv =
     (let lower_floor =
            dmul (dfloor (ddiv (lower_mode priv) (major_interval priv))) (major_interval priv)
      in Option.bind
           (grid_major_loop (major_interval priv) (dceil (upper_mode priv)) lower_floor [])
           (\<lambda>major.
              if minor_divisions priv \<noteq> 0
              then Option.bind (grid_minor_loop priv lower_floor [])
                     (\<lambda>minor. Some (major, minor))
              else Some (major, [])))"

text \<open>
  \<^verbatim>\<open>poc_axis_draw_grid\<close> in rounded arithmetic. \<^verbatim>\<open>floor\<close> and \<^verbatim>\<open>ceil\<close> are exact; the
  library's \<^verbatim>\<open>log10\<close> is the parameter \<open>lg\<close>.
\<close>

partial_function (option) grid_major_loop_ieee ::
  "gdouble \<Rightarrow> gdouble \<Rightarrow> gdouble \<Rightarrow> gdouble list \<Rightarrow> gdouble list option" where
  "grid_major_loop_ieee interval limit xy path =
     (if dle xy limit
      then grid_major_loop_ieee interval limit (fadd xy interval) (path @ [xy])
      else Some path)"

partial_function (option) grid_decade_loop_ieee ::
  "(real \<Rightarrow> gdouble \<Rightarrow> gdouble) \<Rightarrow> gdouble \<Rightarrow> gdouble \<Rightarrow> gdouble list \<Rightarrow> gdouble list option"
  where
  "grid_decade_loop_ieee lg xy mxy path =
     (if dlt mxy (Fin 10)
      then grid_decade_loop_ieee lg xy (fadd mxy (Fin 1)) (path @ [fadd xy (lg 10 mxy)])
      else Some path)"

partial_function (option) grid_division_loop_ieee ::
  "PocAxisPrivate \<Rightarrow> gdouble \<Rightarrow> gdouble \<Rightarrow> gdouble list \<Rightarrow> gdouble list option" where
  "grid_division_loop_ieee priv xy mxy path =
     (if dlt mxy (major_interval priv)
      then grid_division_loop_ieee priv xy (fadd mxy (minor_interval priv))
             (path @ [fadd xy mxy])
      else Some path)"

partial_function (option) grid_minor_loop_ieee ::
  "(real \<Rightarrow> gdouble \<Rightarrow> gdouble) \<Rightarrow> PocAxisPrivate \<Rightarrow> gdouble \<Rightarrow> gdouble list
     \<Rightarrow> gdouble list option" where
  "grid_minor_loop_ieee lg priv xy path =
     (if dle xy (upper_mode priv)
      then Option.bind
             (if axis_mode priv = POC_AXIS_LOG_DECADE
              then grid_decade_loop_ieee lg xy (Fin 2) path
              else grid_division_loop_ieee priv xy (minor_interval priv) path)
             (\<lambda>path'. grid_minor_loop_ieee lg priv (fadd xy (major_interval priv)) path')
      else Some path)"

definition poc_axis_draw_grid_ieee ::
  "(real \<Rightarrow> gdouble \<Rightarrow> gdouble) \<Rightarrow> PocAxisPrivate \<Rightarrow> (gdouble list \<times> gdouble list) option"
  where
  "poc_axis_draw_grid_ieee lg priv =
     (let lower_floor =
            fmul (dfloor (fdiv (lower_mode priv) (major_interval priv))) (major_interval priv)
      in Option.bind
           (grid_major_loop_ieee (major_interval priv) (dceil (upper_mode priv)) lower_floor [])
           (\<lambda>major.
              if minor_divisions priv \<noteq> 0
              then Option.bind (grid_minor_loop_ieee lg priv lower_floor [])
                     (\<lambda>minor. Some (major, minor))
              else Some (major, [])))"

subsection \<open>The spline (pocspline.c)\<close>

text \<open>\<^verbatim>\<open>PocPoint\<close>; the fields \<^verbatim>\<open>x\<close> and \<^verbatim>\<open>y\<close> are \<open>point_x\<close> and \<open>point_y\<close>.
  A \<^verbatim>\<open>PocPointArray\<close> is the list of its \<^verbatim>\<open>len\<close> points.\<close>

record PocPoint =
  point_x :: gdouble
  point_y :: gdouble

text \<open>
  \<^verbatim>\<open>g_malloc\<close> returns memory that is not initialised. The model fills it with NaN, so
  that a result computed from an element that was never written is NaN.
\<close>

definition g_malloc :: "nat \<Rightarrow> gdouble list" where
  "g_malloc n = replicate n NaN"

text \<open>
  \<^verbatim>\<open>spline_solve\<close>. Its callers pass \<open>n \<ge> 2\<close>, the number of points, and an array \<open>y2\<close>
  of \<open>n\<close> elements. The first loop runs \<open>i\<close> from 1 to \<open>n - 2\<close>, the second runs \<open>k\<close> from
  \<open>n - 2\<close> down to 1.
\<close>

function spline_solve_forward ::
  "nat \<Rightarrow> PocPoint list \<Rightarrow> nat \<Rightarrow> gdouble list \<Rightarrow> gdouble list \<Rightarrow> gdouble list \<times> gdouble list"
  where
  "spline_solve_forward n point i y2 u =
     (if i < n - 1
      then (let sig = ddiv (dsub (point_x (point ! i)) (point_x (point ! (i - 1))))
                           (dsub (point_x (point ! (i + 1))) (point_x (point ! (i - 1))));
                p = dadd (dmul sig (y2 ! (i - 1))) (Fin 2);
                y2' = y2[i := ddiv (dsub sig (Fin 1)) p];
                u' = u[i := dsub (ddiv (dsub (point_y (point ! (i + 1))) (point_y (point ! i)))
                                       (dsub (point_x (point ! (i + 1))) (point_x (point ! i))))
                                 (ddiv (dsub (point_y (point ! i)) (point_y (point ! (i - 1))))
                                       (dsub (point_x (point ! i)) (point_x (point ! (i - 1)))))];
                u'' = u'[i := ddiv (dsub (ddiv (dmul (Fin 6) (u' ! i))
                                               (dsub (point_x (point ! (i + 1)))
                                                     (point_x (point ! (i - 1)))))
                                         (dmul sig (u' ! (i - 1))))
                                   p]
            in spline_solve_forward n point (i + 1) y2' u'')
      else (y2, u))"
  by pat_completeness auto
termination
  by (relation "measure (\<lambda>(n, point, i, y2, u). n - 1 - i)") auto

fun spline_solve_backward :: "nat \<Rightarrow> gdouble list \<Rightarrow> gdouble list \<Rightarrow> gdouble list" where
  "spline_solve_backward 0 y2 u = y2"
| "spline_solve_backward (Suc k) y2 u =
     spline_solve_backward k
       (y2[Suc k := dadd (dmul (y2 ! Suc k) (y2 ! (Suc k + 1))) (u ! Suc k)]) u"

definition spline_solve :: "nat \<Rightarrow> PocPoint list \<Rightarrow> gdouble list \<Rightarrow> gdouble list" where
  "spline_solve n point y2 =
     (let u = (g_malloc (n - 1))[0 := Fin 0];
          y2a = y2[n - 1 := Fin 0];
          y2b = y2a[0 := Fin 0];
          (y2c, u') = spline_solve_forward n point 1 y2b u
      in spline_solve_backward (n - 2) y2c u')"

text \<open>\<^verbatim>\<open>spline_eval\<close>: the binary search on \<^verbatim>\<open>gint\<close> indices, then the cubic.\<close>

function spline_eval_search :: "PocPoint list \<Rightarrow> gdouble \<Rightarrow> int \<Rightarrow> int \<Rightarrow> int \<times> int" where
  "spline_eval_search point val k_lo k_hi =
     (if k_hi - k_lo > 1
      then (let k = (k_hi + k_lo) div 2
            in if dgt (point_x (point ! nat k)) val
               then spline_eval_search point val k_lo k
               else spline_eval_search point val k k_hi)
      else (k_lo, k_hi))"
  by pat_completeness auto
termination
  by (relation "measure (\<lambda>(point, val, k_lo, k_hi). nat (k_hi - k_lo))") auto

definition spline_eval :: "nat \<Rightarrow> PocPoint list \<Rightarrow> gdouble list \<Rightarrow> gdouble \<Rightarrow> gdouble" where
  "spline_eval n point y2 val =
     (let (k_lo, k_hi) = spline_eval_search point val 0 (int n - 1);
          lo = point ! nat k_lo;
          hi = point ! nat k_hi;
          h = dsub (point_x hi) (point_x lo);
          a = ddiv (dsub (point_x hi) val) h;
          b = ddiv (dsub val (point_x lo)) h
      in dadd (dadd (dmul a (point_y lo)) (dmul b (point_y hi)))
              (ddiv (dmul (dadd (dmul (dsub (dmul (dmul a a) a) a) (y2 ! nat k_lo))
                                (dmul (dsub (dmul (dmul b b) b) b) (y2 ! nat k_hi)))
                          (dmul h h))
                    (Fin 6)))"

text \<open>
  \<^verbatim>\<open>poc_spline_get_vector\<close> and \<^verbatim>\<open>poc_spline_get_points\<close>. Each of the two
  \<^verbatim>\<open>g_return_val_if_fail\<close> checks returns \<^verbatim>\<open>NULL\<close> when it fails (the checks are
  compiled in unless the build defines \<^verbatim>\<open>G_DISABLE_CHECKS\<close>); the model says which one
  failed. The second check looks at the data pointer of the new array, which GLib's
  \<^verbatim>\<open>g_array_sized_new\<close> leaves \<^verbatim>\<open>NULL\<close> exactly when the reserved size is zero.
  The loop counter \<^verbatim>\<open>x\<close> runs from 0 to \<open>veclen - 1\<close> and does not wrap; \<open>veclen - 1\<close>
  in the step \<^verbatim>\<open>dx\<close> is unsigned arithmetic.
\<close>

datatype failed_check = N_POINTS_CHECK | ARRAY_DATA_CHECK

definition sized_new_has_data :: "guint \<Rightarrow> bool" where
  "sized_new_has_data reserved_size = (reserved_size \<noteq> 0)"

function get_vector_loop ::
  "nat \<Rightarrow> PocPoint list \<Rightarrow> gdouble list \<Rightarrow> gdouble \<Rightarrow> nat \<Rightarrow> nat \<Rightarrow> gdouble \<Rightarrow> gdouble list
     \<Rightarrow> gdouble list" where
  "get_vector_loop n point y2v dx veclen x rx array =
     (if x < veclen
      then get_vector_loop n point y2v dx veclen (x + 1) (dadd rx dx)
             (array[x := spline_eval n point y2v rx])
      else array)"
  by pat_completeness auto
termination
  by (relation "measure (\<lambda>(n, point, y2v, dx, veclen, x, rx, array). veclen - x)") auto

definition poc_spline_get_vector ::
  "PocPoint list \<Rightarrow> gdouble \<Rightarrow> gdouble \<Rightarrow> guint \<Rightarrow> failed_check + gdouble list" where
  "poc_spline_get_vector points min_x max_x veclen =
     (let n_points = length points
      in if \<not> n_points \<ge> 2 then Inl N_POINTS_CHECK
         else if \<not> sized_new_has_data veclen then Inl ARRAY_DATA_CHECK
         else (let y2v = spline_solve n_points points (g_malloc n_points);
                   dx = ddiv (dsub max_x min_x) (guint_to_double (veclen - 1))
               in Inr (get_vector_loop n_points points y2v dx (unat veclen) 0 min_x
                         (replicate (unat veclen) (Fin 0)))))"

function get_points_loop ::
  "nat \<Rightarrow> PocPoint list \<Rightarrow> gdouble list \<Rightarrow> gdouble \<Rightarrow> nat \<Rightarrow> nat \<Rightarrow> gdouble \<Rightarrow> PocPoint list
     \<Rightarrow> PocPoint list" where
  "get_points_loop n point y2v dx veclen x rx array =
     (if x < veclen
      then get_points_loop n point y2v dx veclen (x + 1) (dadd rx dx)
             (array @ [\<lparr>point_x = rx, point_y = spline_eval n point y2v rx\<rparr>])
      else array)"
  by pat_completeness auto
termination
  by (relation "measure (\<lambda>(n, point, y2v, dx, veclen, x, rx, array). veclen - x)") auto

definition poc_spline_get_points ::
  "PocPoint list \<Rightarrow> gdouble \<Rightarrow> gdouble \<Rightarrow> guint \<Rightarrow> failed_check + PocPoint list" where
  "poc_spline_get_points points min_x max_x veclen =
     (let n_points = length points
      in if \<not> n_points \<ge> 2 then Inl N_POINTS_CHECK
         else if \<not> sized_new_has_data veclen then Inl ARRAY_DATA_CHECK
         else (let y2v = spline_solve n_points points (g_malloc n_points);
                   dx = ddiv (dsub max_x min_x) (guint_to_double (veclen - 1))
               in Inr (get_points_loop n_points points y2v dx (unat veclen) 0 min_x [])))"

text \<open>
  The spline functions in rounded arithmetic: the same code, every operation with its
  rounding. The binary search compares and does not compute, so \<open>spline_eval_search\<close>
  serves both.
\<close>

function spline_solve_forward_ieee ::
  "nat \<Rightarrow> PocPoint list \<Rightarrow> nat \<Rightarrow> gdouble list \<Rightarrow> gdouble list \<Rightarrow> gdouble list \<times> gdouble list"
  where
  "spline_solve_forward_ieee n point i y2 u =
     (if i < n - 1
      then (let sig = fdiv (fsub (point_x (point ! i)) (point_x (point ! (i - 1))))
                           (fsub (point_x (point ! (i + 1))) (point_x (point ! (i - 1))));
                p = fadd (fmul sig (y2 ! (i - 1))) (Fin 2);
                y2' = y2[i := fdiv (fsub sig (Fin 1)) p];
                u' = u[i := fsub (fdiv (fsub (point_y (point ! (i + 1))) (point_y (point ! i)))
                                       (fsub (point_x (point ! (i + 1))) (point_x (point ! i))))
                                 (fdiv (fsub (point_y (point ! i)) (point_y (point ! (i - 1))))
                                       (fsub (point_x (point ! i)) (point_x (point ! (i - 1)))))];
                u'' = u'[i := fdiv (fsub (fdiv (fmul (Fin 6) (u' ! i))
                                               (fsub (point_x (point ! (i + 1)))
                                                     (point_x (point ! (i - 1)))))
                                         (fmul sig (u' ! (i - 1))))
                                   p]
            in spline_solve_forward_ieee n point (i + 1) y2' u'')
      else (y2, u))"
  by pat_completeness auto
termination
  by (relation "measure (\<lambda>(n, point, i, y2, u). n - 1 - i)") auto

fun spline_solve_backward_ieee :: "nat \<Rightarrow> gdouble list \<Rightarrow> gdouble list \<Rightarrow> gdouble list" where
  "spline_solve_backward_ieee 0 y2 u = y2"
| "spline_solve_backward_ieee (Suc k) y2 u =
     spline_solve_backward_ieee k
       (y2[Suc k := fadd (fmul (y2 ! Suc k) (y2 ! (Suc k + 1))) (u ! Suc k)]) u"

definition spline_solve_ieee :: "nat \<Rightarrow> PocPoint list \<Rightarrow> gdouble list \<Rightarrow> gdouble list" where
  "spline_solve_ieee n point y2 =
     (let u = (g_malloc (n - 1))[0 := Fin 0];
          y2a = y2[n - 1 := Fin 0];
          y2b = y2a[0 := Fin 0];
          (y2c, u') = spline_solve_forward_ieee n point 1 y2b u
      in spline_solve_backward_ieee (n - 2) y2c u')"

definition spline_eval_ieee :: "nat \<Rightarrow> PocPoint list \<Rightarrow> gdouble list \<Rightarrow> gdouble \<Rightarrow> gdouble" where
  "spline_eval_ieee n point y2 val =
     (let (k_lo, k_hi) = spline_eval_search point val 0 (int n - 1);
          lo = point ! nat k_lo;
          hi = point ! nat k_hi;
          h = fsub (point_x hi) (point_x lo);
          a = fdiv (fsub (point_x hi) val) h;
          b = fdiv (fsub val (point_x lo)) h
      in fadd (fadd (fmul a (point_y lo)) (fmul b (point_y hi)))
              (fdiv (fmul (fadd (fmul (fsub (fmul (fmul a a) a) a) (y2 ! nat k_lo))
                                (fmul (fsub (fmul (fmul b b) b) b) (y2 ! nat k_hi)))
                          (fmul h h))
                    (Fin 6)))"

function get_vector_loop_ieee ::
  "nat \<Rightarrow> PocPoint list \<Rightarrow> gdouble list \<Rightarrow> gdouble \<Rightarrow> nat \<Rightarrow> nat \<Rightarrow> gdouble \<Rightarrow> gdouble list
     \<Rightarrow> gdouble list" where
  "get_vector_loop_ieee n point y2v dx veclen x rx array =
     (if x < veclen
      then get_vector_loop_ieee n point y2v dx veclen (x + 1) (fadd rx dx)
             (array[x := spline_eval_ieee n point y2v rx])
      else array)"
  by pat_completeness auto
termination
  by (relation "measure (\<lambda>(n, point, y2v, dx, veclen, x, rx, array). veclen - x)") auto

definition poc_spline_get_vector_ieee ::
  "PocPoint list \<Rightarrow> gdouble \<Rightarrow> gdouble \<Rightarrow> guint \<Rightarrow> failed_check + gdouble list" where
  "poc_spline_get_vector_ieee points min_x max_x veclen =
     (let n_points = length points
      in if \<not> n_points \<ge> 2 then Inl N_POINTS_CHECK
         else if \<not> sized_new_has_data veclen then Inl ARRAY_DATA_CHECK
         else (let y2v = spline_solve_ieee n_points points (g_malloc n_points);
                   dx = fdiv (fsub max_x min_x) (guint_to_double (veclen - 1))
               in Inr (get_vector_loop_ieee n_points points y2v dx (unat veclen) 0 min_x
                         (replicate (unat veclen) (Fin 0)))))"

function get_points_loop_ieee ::
  "nat \<Rightarrow> PocPoint list \<Rightarrow> gdouble list \<Rightarrow> gdouble \<Rightarrow> nat \<Rightarrow> nat \<Rightarrow> gdouble \<Rightarrow> PocPoint list
     \<Rightarrow> PocPoint list" where
  "get_points_loop_ieee n point y2v dx veclen x rx array =
     (if x < veclen
      then get_points_loop_ieee n point y2v dx veclen (x + 1) (fadd rx dx)
             (array @ [\<lparr>point_x = rx, point_y = spline_eval_ieee n point y2v rx\<rparr>])
      else array)"
  by pat_completeness auto
termination
  by (relation "measure (\<lambda>(n, point, y2v, dx, veclen, x, rx, array). veclen - x)") auto

definition poc_spline_get_points_ieee ::
  "PocPoint list \<Rightarrow> gdouble \<Rightarrow> gdouble \<Rightarrow> guint \<Rightarrow> failed_check + PocPoint list" where
  "poc_spline_get_points_ieee points min_x max_x veclen =
     (let n_points = length points
      in if \<not> n_points \<ge> 2 then Inl N_POINTS_CHECK
         else if \<not> sized_new_has_data veclen then Inl ARRAY_DATA_CHECK
         else (let y2v = spline_solve_ieee n_points points (g_malloc n_points);
                   dx = fdiv (fsub max_x min_x) (guint_to_double (veclen - 1))
               in Inr (get_points_loop_ieee n_points points y2v dx (unat veclen) 0 min_x [])))"

subsection \<open>Datasets (pocdataset.c, pocdatasetspline.c)\<close>

text \<open>
  The control points of a dataset (\<^verbatim>\<open>priv->points\<close> of \<^verbatim>\<open>PocDatasetPrivate\<close>, \<^verbatim>\<open>NULL\<close>
  is \<open>None\<close>) and, for a \<^verbatim>\<open>PocDatasetSpline\<close>, the cache of resampled points
  (\<^verbatim>\<open>self->points\<close> of \<^verbatim>\<open>struct _PocDatasetSpline\<close>, here \<open>cache_points\<close>) with the width
  it was computed for. Colours, line style, names and the axis references are left out.
\<close>

record PocDatasetPrivate =
  points :: "PocPoint list option"

record PocDatasetSpline =
  parent_instance :: PocDatasetPrivate
  cache_points :: "PocPoint list option"
  cache_width :: guint

text \<open>An object is of class \<^verbatim>\<open>PocDataset\<close> or of its subclass \<^verbatim>\<open>PocDatasetSpline\<close>;
  the class decides which \<^verbatim>\<open>invalidate\<close> method runs.\<close>

datatype dataset_object = Dataset PocDatasetPrivate | DatasetSpline PocDatasetSpline

definition poc_dataset_invalidate_real :: "PocDatasetPrivate \<Rightarrow> PocDatasetPrivate" where
  "poc_dataset_invalidate_real self = self"

definition poc_dataset_spline_invalidate :: "PocDatasetSpline \<Rightarrow> PocDatasetSpline" where
  "poc_dataset_spline_invalidate self =
     (let self1 = self\<lparr>parent_instance := poc_dataset_invalidate_real (parent_instance self)\<rparr>
      in if cache_points self1 \<noteq> None then self1\<lparr>cache_points := None\<rparr> else self1)"

fun poc_dataset_invalidate :: "dataset_object \<Rightarrow> dataset_object" where
  "poc_dataset_invalidate (Dataset self) = Dataset (poc_dataset_invalidate_real self)"
| "poc_dataset_invalidate (DatasetSpline self) = DatasetSpline (poc_dataset_spline_invalidate self)"

fun dataset_priv :: "dataset_object \<Rightarrow> PocDatasetPrivate" where
  "dataset_priv (Dataset self) = self"
| "dataset_priv (DatasetSpline self) = parent_instance self"

fun dataset_set_priv :: "dataset_object \<Rightarrow> PocDatasetPrivate \<Rightarrow> dataset_object" where
  "dataset_set_priv (Dataset self) priv = Dataset priv"
| "dataset_set_priv (DatasetSpline self) priv = DatasetSpline (self\<lparr>parent_instance := priv\<rparr>)"

definition poc_dataset_set_points :: "dataset_object \<Rightarrow> PocPoint list option \<Rightarrow> dataset_object"
  where
  "poc_dataset_set_points self new_points =
     poc_dataset_invalidate
       (dataset_set_priv self ((dataset_priv self)\<lparr>points := new_points\<rparr>))"

definition poc_dataset_get_points :: "dataset_object \<Rightarrow> PocPoint list option" where
  "poc_dataset_get_points self = points (dataset_priv self)"

text \<open>\<^verbatim>\<open>poc_dataset_set_points_array\<close>: the new array is filled from the first
  \<open>n_points\<close> elements of the coordinate arrays \<open>xs\<close> and \<open>ys\<close>.\<close>

definition poc_dataset_set_points_array ::
  "dataset_object \<Rightarrow> gdouble list \<Rightarrow> gdouble list \<Rightarrow> guint \<Rightarrow> dataset_object" where
  "poc_dataset_set_points_array self xs ys n_points =
     dataset_set_priv self
       ((dataset_priv self)
          \<lparr>points := Some (map (\<lambda>i. \<lparr>point_x = xs ! i, point_y = ys ! i\<rparr>)
                             [0..<unat n_points])\<rparr>)"

text \<open>
  The cache handling at the start of \<^verbatim>\<open>poc_dataset_spline_draw\<close>: nothing is drawn
  without control points; the cache is computed when there is none or the width has
  changed. When \<^verbatim>\<open>poc_spline_get_points\<close> returns \<^verbatim>\<open>NULL\<close> (fewer than two control
  points) the cache pointer is \<^verbatim>\<open>NULL\<close> again; the drawing code that follows reads the
  first cached point through it. That part of the function, the drawing, is not
  modelled.
\<close>

definition poc_dataset_spline_draw_cache ::
  "PocDatasetSpline \<Rightarrow> PocAxisPrivate \<Rightarrow> guint \<Rightarrow> PocDatasetSpline" where
  "poc_dataset_spline_draw_cache self x_axis width =
     (case points (parent_instance self) of
        None \<Rightarrow> self
      | Some spline \<Rightarrow>
          if cache_points self = None \<or> cache_width self \<noteq> width
          then (let (min_x, max_x) = poc_axis_get_display_range x_axis
                in self\<lparr>cache_width := width,
                        cache_points :=
                          (case poc_spline_get_points spline min_x max_x (width div 4 + 1) of
                             Inl _ \<Rightarrow> None
                           | Inr array \<Rightarrow> Some array)\<rparr>)
          else self)"

text \<open>A new \<^verbatim>\<open>PocDatasetSpline\<close>: the instance memory is zeroed.\<close>

definition poc_dataset_spline_new :: dataset_object where
  "poc_dataset_spline_new =
     DatasetSpline \<lparr>parent_instance = \<lparr>points = None\<rparr>, cache_points = None, cache_width = 0\<rparr>"

text \<open>The cache of resampled points of a dataset; a plain \<^verbatim>\<open>PocDataset\<close> has none.\<close>

fun dataset_cache :: "dataset_object \<Rightarrow> PocPoint list option" where
  "dataset_cache (Dataset self) = None"
| "dataset_cache (DatasetSpline self) = cache_points self"

text \<open>
  What \<^verbatim>\<open>poc_dataset_draw\<close> does to the object it draws, with the X axis the dataset
  refers to: the draw method of \<^verbatim>\<open>PocDataset\<close> changes nothing, that of
  \<^verbatim>\<open>PocDatasetSpline\<close> updates its cache.
\<close>

fun poc_dataset_draw :: "dataset_object \<Rightarrow> PocAxisPrivate \<Rightarrow> guint \<Rightarrow> dataset_object" where
  "poc_dataset_draw (Dataset self) x_axis width = Dataset self"
| "poc_dataset_draw (DatasetSpline self) x_axis width =
     DatasetSpline (poc_dataset_spline_draw_cache self x_axis width)"

subsection \<open>Notions used to state the properties\<close>

text \<open>Control points with finite coordinates, given by their coordinates.\<close>

definition finite_points :: "(real \<times> real) list \<Rightarrow> PocPoint list" where
  "finite_points xys = map (\<lambda>(x, y). \<lparr>point_x = Fin x, point_y = Fin y\<rparr>) xys"

text \<open>The second derivatives as \<^verbatim>\<open>poc_spline_get_vector\<close> and \<^verbatim>\<open>poc_spline_get_points\<close>
  compute them: \<^verbatim>\<open>spline_solve\<close> on a fresh array.\<close>

definition spline_y2 :: "PocPoint list \<Rightarrow> gdouble list" where
  "spline_y2 pts = spline_solve (length pts) pts (g_malloc (length pts))"

text \<open>The \<open>k\<close>-th of \<open>veclen\<close> positions evenly spaced from \<open>a\<close> to \<open>b\<close>.\<close>

definition sample_position :: "real \<Rightarrow> real \<Rightarrow> nat \<Rightarrow> nat \<Rightarrow> real" where
  "sample_position a b veclen k = a + real k * ((b - a) / real (veclen - 1))"

text \<open>The second derivatives in rounded arithmetic.\<close>

definition spline_y2_ieee :: "PocPoint list \<Rightarrow> gdouble list" where
  "spline_y2_ieee pts = spline_solve_ieee (length pts) pts (g_malloc (length pts))"

text \<open>The values of \<^verbatim>\<open>rx\<close> in the first \<open>k\<close> passes of the sampling loop that starts at
  \<open>rx\<close> and steps by \<open>dx\<close>: \<open>rx\<close>, \<open>rx + dx\<close>, \<open>(rx + dx) + dx\<close>, ..., every sum rounded.\<close>

primrec accumulated_positions :: "gdouble \<Rightarrow> gdouble \<Rightarrow> nat \<Rightarrow> gdouble list" where
  "accumulated_positions rx dx 0 = []"
| "accumulated_positions rx dx (Suc k) = rx # accumulated_positions (fadd rx dx) dx k"


text \<open>The eight minor grid positions of the decade that starts at the major position
  \<open>xy\<close>: \<open>xy + log10(2)\<close>, ..., \<open>xy + log10(9)\<close>.\<close>

definition decade_minor_positions :: "gdouble \<Rightarrow> gdouble list" where
  "decade_minor_positions xy = map (\<lambda>k. dadd xy (dlog 10 (Fin k))) [2, 3, 4, 5, 6, 7, 8, 9]"

text \<open>The same eight positions as the code computes them: the rounded sums of \<open>xy\<close> and the
  library's \<open>log10(2)\<close>, ..., \<open>log10(9)\<close>.\<close>

definition decade_minor_positions_ieee ::
  "(real \<Rightarrow> gdouble \<Rightarrow> gdouble) \<Rightarrow> gdouble \<Rightarrow> gdouble list" where
  "decade_minor_positions_ieee lg xy =
     map (\<lambda>k. fadd xy (lg 10 (Fin k))) [2, 3, 4, 5, 6, 7, 8, 9]"

text \<open>The positions \<open>xy\<close>, \<open>xy + interval\<close>, \<open>xy + 2 * interval\<close>, ... up to \<open>limit\<close>, for
  a positive interval.\<close>

function grid_positions :: "real \<Rightarrow> real \<Rightarrow> real \<Rightarrow> real list" where
  "grid_positions interval limit xy =
     (if 0 < interval \<and> xy \<le> limit
      then xy # grid_positions interval limit (xy + interval)
      else [])"
  by pat_completeness auto
termination
proof (relation "measure (\<lambda>(interval, limit, xy). nat (\<lfloor>(limit - xy) / interval\<rfloor> + 1))")
  show "wf (measure (\<lambda>(interval, limit, xy). nat (\<lfloor>(limit - xy) / interval\<rfloor> + 1)))"
    by simp
next
  fix interval limit xy :: real
  assume a: "0 < interval \<and> xy \<le> limit"
  then have "(limit - (xy + interval)) / interval = (limit - xy) / interval - 1"
    by (simp add: field_simps)
  then have "\<lfloor>(limit - (xy + interval)) / interval\<rfloor> = \<lfloor>(limit - xy) / interval\<rfloor> - 1"
    by simp
  moreover have "0 \<le> \<lfloor>(limit - xy) / interval\<rfloor>"
    using a by simp
  ultimately show "((interval, limit, xy + interval), (interval, limit, xy))
      \<in> measure (\<lambda>(interval, limit, xy). nat (\<lfloor>(limit - xy) / interval\<rfloor> + 1))"
    by simp
qed

declare spline_solve_forward.simps [simp del] spline_eval_search.simps [simp del]
  get_vector_loop.simps [simp del] get_points_loop.simps [simp del]
  grid_positions.simps [simp del]

declare dround.simps(1) [simp del] spline_solve_forward_ieee.simps [simp del]
  get_vector_loop_ieee.simps [simp del] get_points_loop_ieee.simps [simp del]

subsection \<open>The ladder of the automatic major interval, as the specification words it\<close>

definition ladder :: "real list" where
  "ladder = [1, 10, 100, 1000, 10000]"

text \<open>The specification: the smallest value of the ladder that is at least the span, or 1 if
  the span is below 10.\<close>

definition claimed_major_interval :: "real \<Rightarrow> real" where
  "claimed_major_interval s = (if s < 10 then 1 else Min (set (filter (\<lambda>r. s \<le> r) ladder)))"

text \<open>What the code computes: the largest value of the ladder that the span reaches
  (\<^verbatim>\<open>span >= rung\<close>), or 1 when it reaches none.\<close>

definition largest_rung_reached :: "gdouble \<Rightarrow> real" where
  "largest_rung_reached s = Max (set (1 # filter (\<lambda>r. dge s (Fin r)) ladder))"

section \<open>Properties\<close>

subsection \<open>Arithmetic on finite values\<close>

lemma dsub_Fin [simp]: "dsub (Fin a) (Fin b) = Fin (a - b)"
  by (simp add: dsub_def)

lemma isfinite_iff: "isfinite c = (\<exists>r. c = Fin r)"
  by (cases c) auto

subsection \<open>Rounding\<close>

lemma round_half_even_error: "\<bar>of_int (round_half_even x) - x\<bar> \<le> 1 / 2"
  unfolding round_half_even_def Let_def by (auto simp: abs_if) linarith+

lemma round_half_even_of_int [simp]: "round_half_even (of_int k) = k"
  by (simp add: round_half_even_def)

lemma round_half_even_ge:
  assumes "of_int k \<le> x"
  shows "k \<le> round_half_even x"
proof -
  have "k \<le> \<lfloor>x\<rfloor>"
    using assms by (simp add: le_floor_iff)
  then show ?thesis
    by (simp add: round_half_even_def Let_def)
qed

lemma round_half_even_le:
  assumes "x \<le> of_int k"
  shows "round_half_even x \<le> k"
proof (cases "x = of_int k")
  case True
  then show ?thesis by simp
next
  case False
  then have "x < of_int k"
    using assms by simp
  then have "\<lfloor>x\<rfloor> < k"
    by (simp add: floor_less_iff)
  then show ?thesis
    by (simp add: round_half_even_def Let_def)
qed

lemma powr_powi: "(2::real) powr real_of_int k = 2 powi k"
  by (rule powr_real_of_int') auto

lemma floor_log2_eq:
  assumes "2 powi e \<le> x" "x < 2 powi (e + 1)"
  shows "\<lfloor>log 2 x\<rfloor> = e"
proof -
  have "0 < x"
    using assms(1) by (smt (verit) zero_less_power_int)
  then show ?thesis
    using floor_log_eq_powr_iff [of x 2 e] assms unfolding powr_powi by simp
qed

lemma floor_log2_le:
  assumes "0 < x"
  shows "2 powi \<lfloor>log 2 x\<rfloor> \<le> x"
  using floor_log_eq_powr_iff [of x 2 "\<lfloor>log 2 x\<rfloor>"] assms unfolding powr_powi by simp

lemma floor_log2_less:
  assumes "0 < x" "x < 2 powi e"
  shows "\<lfloor>log 2 x\<rfloor> < e"
proof (rule ccontr)
  assume "\<not> \<lfloor>log 2 x\<rfloor> < e"
  then have "(2::real) powi e \<le> 2 powi \<lfloor>log 2 x\<rfloor>"
    by (intro power_int_increasing) auto
  then show False
    using floor_log2_le [OF assms(1)] assms(2) by simp
qed

lemma binary64_exponent_normal:
  assumes "2 powi e \<le> \<bar>x\<bar>" "\<bar>x\<bar> < 2 powi (e + 1)" "- 1022 \<le> e"
  shows "binary64_exponent x = e"
  using floor_log2_eq [OF assms(1,2)] assms(3) by (simp add: binary64_exponent_def)

text \<open>One rounding: the error is at most half a unit in the last place.\<close>

lemma round_to_binary64_half_ulp:
  "\<bar>round_to_binary64 x - x\<bar> \<le> 2 powi (binary64_exponent x - 53)"
proof (cases "x = 0")
  case True
  then show ?thesis by (simp add: round_to_binary64_def)
next
  case False
  define q :: real where "q = 2 powi (binary64_exponent x - 52)"
  define k where "k = round_half_even (x / q)"
  have q: "0 < q" by (simp add: q_def)
  have "\<bar>of_int k - x / q\<bar> \<le> 1 / 2"
    unfolding k_def by (rule round_half_even_error)
  then have "\<bar>of_int k - x / q\<bar> * q \<le> 1 / 2 * q"
    using q by (intro mult_right_mono) auto
  also have "\<bar>of_int k - x / q\<bar> * q = \<bar>(of_int k - x / q) * q\<bar>"
    using q by (simp add: abs_mult)
  also have "(of_int k - x / q) * q = of_int k * q - x"
    using q by (simp add: field_simps)
  finally have 1: "\<bar>of_int k * q - x\<bar> \<le> 1 / 2 * q" .
  have 2: "1 / 2 * q = 2 powi (binary64_exponent x - 53)"
    unfolding q_def by (simp add: power_int_diff)
  have 3: "round_to_binary64 x = of_int k * q"
    using False by (simp add: round_to_binary64_def Let_def q_def k_def)
  show ?thesis
    unfolding 3 using 1 2 by linarith
qed

lemma round_to_binary64_error:
  "\<bar>round_to_binary64 x - x\<bar> \<le> 2 powi (- 53) * \<bar>x\<bar> + 2 powi (- 1075)"
proof (cases "x = 0")
  case True
  then show ?thesis by (simp add: round_to_binary64_def)
next
  case False
  then have pos: "0 < \<bar>x\<bar>" by simp
  show ?thesis
  proof (cases "- 1022 \<le> \<lfloor>log 2 \<bar>x\<bar>\<rfloor>")
    case True
    then have e: "binary64_exponent x = \<lfloor>log 2 \<bar>x\<bar>\<rfloor>"
      by (simp add: binary64_exponent_def)
    have "(2::real) powi (binary64_exponent x - 53) = 2 powi (- 53) * 2 powi binary64_exponent x"
      by (simp add: power_int_diff power_int_minus field_simps)
    also have "\<dots> \<le> 2 powi (- 53) * \<bar>x\<bar>"
      unfolding e using floor_log2_le [OF pos] by (intro mult_left_mono) auto
    finally show ?thesis
      using round_to_binary64_half_ulp [of x] by (smt (verit) zero_less_power_int)
  next
    case False
    then have "binary64_exponent x = - 1022"
      by (simp add: binary64_exponent_def)
    then have "(2::real) powi (binary64_exponent x - 53) = 2 powi (- 1075)"
      by simp
    then show ?thesis
      using round_to_binary64_half_ulp [of x]
      by (smt (verit) mult_nonneg_nonneg abs_ge_zero zero_less_power_int)
  qed
qed

lemma round_to_binary64_0 [simp]: "round_to_binary64 0 = 0"
  by (simp add: round_to_binary64_def)

lemma dround_0 [simp]: "dround (Fin 0) = Fin 0"
  by (simp add: dround.simps DBL_MAX_def)

lemma dround_Fin_D:
  assumes "dround c = Fin r"
  shows "\<exists>x. c = Fin x \<and> r = round_to_binary64 x"
  using assms by (cases c) (auto simp: dround.simps Let_def split: if_splits)

lemma round_to_binary64_normal_ge:
  assumes "x \<noteq> 0" "- 1022 \<le> \<lfloor>log 2 \<bar>x\<bar>\<rfloor>"
  shows "2 powi binary64_exponent x \<le> \<bar>round_to_binary64 x\<bar>"
proof -
  define e where "e = binary64_exponent x"
  define q :: real where "q = 2 powi (e - 52)"
  have q: "0 < q" by (simp add: q_def)
  have e: "e = \<lfloor>log 2 \<bar>x\<bar>\<rfloor>"
    using assms(2) by (simp add: e_def binary64_exponent_def)
  have le: "2 powi e \<le> \<bar>x\<bar>"
    unfolding e using floor_log2_le [of "\<bar>x\<bar>"] assms(1) by simp
  have pq: "2 powi e = of_int (2 ^ 52) * q"
    unfolding q_def by (simp add: power_int_diff)
  have r: "round_to_binary64 x = of_int (round_half_even (x / q)) * q"
    using assms(1) by (simp add: round_to_binary64_def Let_def q_def e_def)
  show ?thesis
  proof (cases "0 < x")
    case True
    have "of_int (2 ^ 52) \<le> x / q"
      using le True q unfolding pq by (simp add: field_simps)
    then have "2 ^ 52 \<le> round_half_even (x / q)"
      by (rule round_half_even_ge)
    then have "of_int (2 ^ 52) * q \<le> of_int (round_half_even (x / q)) * q"
      using q by (intro mult_right_mono) (auto simp: of_int_le_iff [symmetric] simp del: of_int_le_iff of_int_numeral)
    then show ?thesis
      unfolding r pq e_def [symmetric] by linarith
  next
    case False
    then have neg: "x < 0" using assms(1) by simp
    have "x / q \<le> of_int (- (2 ^ 52))"
      using le neg q unfolding pq by (simp add: field_simps)
    then have "round_half_even (x / q) \<le> - (2 ^ 52)"
      by (rule round_half_even_le)
    then have "of_int (round_half_even (x / q)) \<le> (of_int (- (2 ^ 52)) :: real)"
      by (simp only: of_int_le_iff)
    then have "of_int (round_half_even (x / q)) * q \<le> of_int (- (2 ^ 52)) * q"
      using q by (intro mult_right_mono) auto
    then show ?thesis
      unfolding r pq e_def [symmetric] by (simp add: abs_if)
  qed
qed

lemma round_to_binary64_error_result:
  "\<bar>round_to_binary64 x - x\<bar> \<le> 2 powi (- 53) * \<bar>round_to_binary64 x\<bar> + 2 powi (- 1075)"
proof (cases "x \<noteq> 0 \<and> - 1022 \<le> \<lfloor>log 2 \<bar>x\<bar>\<rfloor>")
  case True
  have "(2::real) powi (binary64_exponent x - 53) = 2 powi (- 53) * 2 powi binary64_exponent x"
    by (simp add: power_int_diff power_int_minus field_simps)
  also have "\<dots> \<le> 2 powi (- 53) * \<bar>round_to_binary64 x\<bar>"
    using round_to_binary64_normal_ge [of x] True by (intro mult_left_mono) auto
  finally show ?thesis
    using round_to_binary64_half_ulp [of x] by (smt (verit) zero_less_power_int)
next
  case False
  show ?thesis
  proof (cases "x = 0")
    case True
    then show ?thesis by simp
  next
    case nz: False
    then have "binary64_exponent x = - 1022"
      using False by (simp add: binary64_exponent_def)
    then have "(2::real) powi (binary64_exponent x - 53) = 2 powi (- 1075)"
      by simp
    then show ?thesis
      using round_to_binary64_half_ulp [of x]
      by (smt (verit) mult_nonneg_nonneg abs_ge_zero zero_less_power_int)
  qed
qed

text \<open>The value of a rounding, from the binade of its argument.\<close>

lemma dround_eq:
  assumes "- 1022 \<le> e" "e \<le> 1022" "2 powi e \<le> \<bar>x\<bar>" "\<bar>x\<bar> < 2 powi (e + 1)"
    and "round_half_even (x / 2 powi (e - 52)) = k"
  shows "dround (Fin x) = Fin (of_int k * 2 powi (e - 52))"
proof -
  define q :: real where "q = 2 powi (e - 52)"
  have q: "0 < q" by (simp add: q_def)
  have ex: "binary64_exponent x = e"
    using assms(1,3,4) by (rule binary64_exponent_normal [rotated 2])
  have nz: "x \<noteq> 0"
    using assms(3) by (smt (verit) zero_less_power_int)
  have r: "round_to_binary64 x = of_int k * q"
    using nz assms(5) by (simp add: round_to_binary64_def Let_def ex q_def)
  have pq: "2 powi (e + 1) = of_int (2 ^ 53) * q"
    unfolding q_def by (simp add: power_int_diff power_int_add)
  have "x / q \<le> of_int (2 ^ 53)" "of_int (- (2 ^ 53)) \<le> x / q"
    using assms(4) q unfolding pq by (simp_all add: field_simps abs_if split: if_splits)
  then have "k \<le> 2 ^ 53" "- (2 ^ 53) \<le> k"
    using round_half_even_le [of "x / q" "2 ^ 53"] round_half_even_ge [of "- (2 ^ 53)" "x / q"]
      assms(5)
    unfolding q_def by blast+
  then have "\<bar>real_of_int k\<bar> \<le> of_int (2 ^ 53)"
    by (simp only: flip: of_int_abs of_int_le_iff)
  then have "\<bar>real_of_int k\<bar> * q \<le> of_int (2 ^ 53) * q"
    using q by (intro mult_right_mono) auto
  then have "\<bar>of_int k * q\<bar> \<le> 2 powi (e + 1)"
    using q unfolding pq by (simp add: abs_mult)
  also have "\<dots> \<le> 2 powi 1023"
    using assms(2) by (intro power_int_increasing) auto
  also have "\<dots> \<le> DBL_MAX"
    by (simp add: DBL_MAX_def)
  finally show ?thesis
    using r by (simp add: dround.simps Let_def q_def)
qed

lemma dround_error:
  assumes "dround (Fin x) = Fin r"
  shows "\<bar>r - x\<bar> \<le> 2 powi (- 53) * \<bar>r\<bar> + 2 powi (- 1075)"
    and "\<bar>r - x\<bar> \<le> 2 powi (- 53) * \<bar>x\<bar> + 2 powi (- 1075)"
proof -
  have r: "r = round_to_binary64 x"
    using assms by (simp add: dround.simps Let_def split: if_splits)
  show "\<bar>r - x\<bar> \<le> 2 powi (- 53) * \<bar>r\<bar> + 2 powi (- 1075)"
    unfolding r by (rule round_to_binary64_error_result)
  show "\<bar>r - x\<bar> \<le> 2 powi (- 53) * \<bar>x\<bar> + 2 powi (- 1075)"
    unfolding r by (rule round_to_binary64_error)
qed

lemma dround_of_int:
  assumes "\<bar>k\<bar> < 2 ^ 53"
  shows "dround (Fin (of_int k)) = Fin (of_int k)"
proof (cases "k = 0")
  case True
  then show ?thesis by simp
next
  case False
  define x :: real where "x = of_int k"
  define e where "e = \<lfloor>log 2 \<bar>x\<bar>\<rfloor>"
  have x1: "1 \<le> \<bar>x\<bar>"
    using False unfolding x_def by (simp flip: of_int_abs)
  have x2: "\<bar>x\<bar> < 2 powi 53"
    using assms unfolding x_def by (simp flip: of_int_abs)
  have lo: "2 powi e \<le> \<bar>x\<bar>"
    unfolding e_def using floor_log2_le [of "\<bar>x\<bar>"] x1 by simp
  have hi: "\<bar>x\<bar> < 2 powi (e + 1)"
    using floor_log_eq_powr_iff [of "\<bar>x\<bar>" 2 e] x1 unfolding powr_powi e_def by simp
  have e0: "0 \<le> e"
    unfolding e_def using x1 by simp
  have e52: "e \<le> 52"
    using floor_log2_less [of "\<bar>x\<bar>" 53] x1 x2 unfolding e_def by simp
  have "e - 52 = - int (nat (52 - e))"
    using e52 by simp
  then have p: "(2::real) powi (e - 52) = inverse (2 ^ nat (52 - e))"
    by (simp only: power_int_minus power_int_of_nat)
  have q: "x / 2 powi (e - 52) = of_int (k * 2 ^ nat (52 - e))"
    unfolding p x_def by (simp add: field_simps)
  have "dround (Fin x) = Fin (of_int (k * 2 ^ nat (52 - e)) * 2 powi (e - 52))"
  proof (rule dround_eq)
    show "- 1022 \<le> e" "e \<le> 1022"
      using e0 e52 by simp_all
    show "round_half_even (x / 2 powi (e - 52)) = k * 2 ^ nat (52 - e)"
      unfolding q by (rule round_half_even_of_int)
  qed (rule lo hi)+
  also have "of_int (k * 2 ^ nat (52 - e)) * 2 powi (e - 52) = x"
    using q by (simp add: field_simps)
  finally show ?thesis
    unfolding x_def .
qed

lemma dround_finite:
  assumes "\<bar>x\<bar> \<le> 2 powi 1023"
  shows "dround (Fin x) = Fin (round_to_binary64 x)"
proof (cases "x = 0")
  case True
  then show ?thesis by simp
next
  case False
  have "\<bar>x\<bar> < 2 powi 1024"
    using assms by (smt (verit) power_int_strict_increasing)
  then have "\<lfloor>log 2 \<bar>x\<bar>\<rfloor> < 1024"
    using floor_log2_less [of "\<bar>x\<bar>" 1024] False by simp
  then have e: "binary64_exponent x - 53 \<le> 970"
    by (simp add: binary64_exponent_def)
  have "\<bar>round_to_binary64 x - x\<bar> \<le> 2 powi (binary64_exponent x - 53)"
    by (rule round_to_binary64_half_ulp)
  also have "\<dots> \<le> 2 powi 970"
    using e by (intro power_int_increasing) auto
  finally have "\<bar>round_to_binary64 x\<bar> \<le> 2 powi 1023 + 2 powi 970"
    using assms by linarith
  also have "\<dots> \<le> DBL_MAX"
    by (simp add: DBL_MAX_def)
  finally show ?thesis
    by (simp add: dround.simps Let_def)
qed

lemma fadd_Fin_bounded:
  assumes "\<bar>x + d\<bar> \<le> K" "K \<le> 2 powi 1023"
  shows "\<exists>r. fadd (Fin x) (Fin d) = Fin r \<and> \<bar>r - (x + d)\<bar> \<le> 2 powi (- 53) * K + 2 powi (- 1075)"
proof -
  have f: "fadd (Fin x) (Fin d) = Fin (round_to_binary64 (x + d))"
    using dround_finite [of "x + d"] assms by (simp add: fadd_def)
  have "\<bar>round_to_binary64 (x + d) - (x + d)\<bar> \<le> 2 powi (- 53) * \<bar>x + d\<bar> + 2 powi (- 1075)"
    by (rule round_to_binary64_error)
  also have "\<dots> \<le> 2 powi (- 53) * K + 2 powi (- 1075)"
    using assms(1) by (intro add_right_mono mult_left_mono) auto
  finally show ?thesis
    using f by blast
qed

lemma fmul_Fin_D:
  assumes "fmul c (Fin s) = Fin r"
  shows "\<exists>t. c = Fin t \<and> dround (Fin (t * s)) = Fin r"
proof -
  obtain x where x: "dmul c (Fin s) = Fin x"
    using dround_Fin_D [of "dmul c (Fin s)" r] assms by (auto simp: fmul_def)
  then obtain t where "c = Fin t"
    by (cases c) (auto split: if_splits)
  then show ?thesis
    using assms by (auto simp: fmul_def)
qed

lemma fsub_Fin_D:
  assumes "fsub (Fin c) d = Fin r"
  shows "\<exists>t. d = Fin t \<and> dround (Fin (c - t)) = Fin r"
proof -
  obtain x where x: "dsub (Fin c) d = Fin x"
    using dround_Fin_D [of "dsub (Fin c) d" r] assms by (auto simp: fsub_def)
  then obtain t where "d = Fin t"
    by (cases d) (auto simp: dsub_def)
  then show ?thesis
    using assms by (auto simp: fsub_def)
qed

subsection \<open>Bounds and the automatic interval\<close>

lemma update_bounds_auto [simp]:
  "auto_interval (poc_axis_update_bounds priv) = auto_interval priv"
  by (simp add: poc_axis_update_bounds_def Let_def split: PocAxisMode.splits)

lemma update_bounds_adjustment [simp]:
  "adjustment (poc_axis_update_bounds priv) = adjustment priv"
  by (simp add: poc_axis_update_bounds_def Let_def split: PocAxisMode.splits)

lemma update_bounds_major:
  assumes "auto_interval priv"
  shows "major_interval (poc_axis_update_bounds priv) =
         Fin (largest_rung_reached (dsub (upper_mode (poc_axis_update_bounds priv))
                                         (lower_mode (poc_axis_update_bounds priv))))"
proof -
  have ladder_case:
    "(if dge s (Fin 10000) then Fin 10000
      else if dge s (Fin 1000) then Fin 1000
      else if dge s (Fin 100) then Fin 100
      else if dge s (Fin 10) then Fin 10
      else Fin 1) = Fin (largest_rung_reached s)" for s
    by (cases s) (auto simp: largest_rung_reached_def ladder_def dge_def)
  show ?thesis
    using assms
    by (simp add: poc_axis_update_bounds_def Let_def ladder_case split: PocAxisMode.splits)
qed

lemma update_bounds_ladder:
  "auto_interval (poc_axis_update_bounds priv) \<Longrightarrow>
   major_interval (poc_axis_update_bounds priv) =
     Fin (largest_rung_reached (dsub (upper_mode (poc_axis_update_bounds priv))
                                     (lower_mode (poc_axis_update_bounds priv))))"
  using update_bounds_major [of priv] by simp

text \<open>
  Claim C1, as the specification states it: with \<^verbatim>\<open>auto_interval\<close> on, the major interval
  is the smallest value of the ladder that is at least the mode-space span, or 1 if the
  span is below 10. It fails: a new axis configured as linear from 0 to 50 has the
  span 50 and gets the major interval 10, where the specification's rule gives 100.
\<close>

theorem auto_interval_ladder_counterexample:
  "(let ax = poc_axis_configure poc_axis_init POC_AXIS_LINEAR (Fin 0) (Fin 50)
    in auto_interval ax \<and> dsub (upper_mode ax) (lower_mode ax) = Fin 50 \<and>
       major_interval ax = Fin 10 \<and> claimed_major_interval 50 = 100)"
  by (simp add: poc_axis_configure_def poc_axis_init_def poc_axis_update_bounds_def Let_def
      dge_def claimed_major_interval_def ladder_def)

text \<open>
  Claim C1, amended: after \<^verbatim>\<open>poc_axis_configure\<close>, \<^verbatim>\<open>poc_axis_set_axis_mode\<close>,
  \<^verbatim>\<open>poc_axis_set_auto_interval\<close> or \<^verbatim>\<open>poc_axis_set_minor_divisions\<close>, and after
  \<^verbatim>\<open>poc_axis_set_lower_bound\<close> or \<^verbatim>\<open>poc_axis_set_upper_bound\<close> on an axis with no adjustment
  attached, an axis with \<^verbatim>\<open>auto_interval\<close> on has as its major interval the largest value
  of \<open>{1, 10, 100, 1000, 10000}\<close> that is at most the mode-space span
  \<open>upper_mode - lower_mode\<close>, and 1 if the span is below 10 (or is NaN).
\<close>

theorem auto_interval_ladder:
  assumes "ax' = poc_axis_configure ax m lo hi \<or>
           adjustment ax = None \<and> ax' = poc_axis_set_lower_bound ax b \<or>
           adjustment ax = None \<and> ax' = poc_axis_set_upper_bound ax b \<or>
           ax' = poc_axis_set_axis_mode ax m \<or>
           ax' = poc_axis_set_auto_interval ax e \<or> ax' = poc_axis_set_minor_divisions ax d"
    and "auto_interval ax'"
  shows "major_interval ax' =
         Fin (largest_rung_reached (dsub (upper_mode ax') (lower_mode ax')))"
proof -
  consider (configure) "ax' = poc_axis_configure ax m lo hi"
    | (lower) "adjustment ax = None" "ax' = poc_axis_set_lower_bound ax b"
    | (upper) "adjustment ax = None" "ax' = poc_axis_set_upper_bound ax b"
    | (mode) "ax' = poc_axis_set_axis_mode ax m"
    | (auto) "ax' = poc_axis_set_auto_interval ax e"
    | (minor) "ax' = poc_axis_set_minor_divisions ax d"
    using assms(1) by (elim disjE conjE) blast+
  then show ?thesis
  proof cases
    case configure
    with assms(2) show ?thesis
      by (simp add: poc_axis_configure_def update_bounds_ladder)
  next
    case lower
    with assms(2) show ?thesis
      by (simp add: poc_axis_set_lower_bound_def Let_def update_bounds_ladder)
  next
    case upper
    with assms(2) show ?thesis
      by (simp add: poc_axis_set_upper_bound_def Let_def update_bounds_ladder)
  next
    case mode
    with assms(2) show ?thesis
      by (simp add: poc_axis_set_axis_mode_def update_bounds_ladder)
  next
    case auto
    with assms(2) show ?thesis
      by (simp add: poc_axis_set_auto_interval_def update_bounds_ladder)
  next
    case minor
    with assms(2) show ?thesis
      by (simp add: poc_axis_set_minor_divisions_def update_bounds_ladder)
  qed
qed

theorem auto_interval_ladder_witness:
  "(let ax' = poc_axis_set_upper_bound poc_axis_init (Fin 250)
    in auto_interval ax' \<and> dsub (upper_mode ax') (lower_mode ax') = Fin 250 \<and>
       major_interval ax' = Fin 100 \<and> largest_rung_reached (Fin 250) = 100)"
proof -
  have n: "adjustment poc_axis_init = None"
    by (simp add: poc_axis_init_def)
  have a: "auto_interval (poc_axis_set_upper_bound poc_axis_init (Fin 250))"
    by (simp add: poc_axis_set_upper_bound_def poc_axis_init_def Let_def)
  have s: "dsub (upper_mode (poc_axis_set_upper_bound poc_axis_init (Fin 250)))
             (lower_mode (poc_axis_set_upper_bound poc_axis_init (Fin 250))) = Fin 250"
    by (simp add: poc_axis_set_upper_bound_def poc_axis_init_def poc_axis_update_bounds_def
        Let_def)
  have l: "largest_rung_reached (Fin 250) = 100"
    by (simp add: largest_rung_reached_def ladder_def dge_def)
  show ?thesis
    using auto_interval_ladder [of "poc_axis_set_upper_bound poc_axis_init (Fin 250)"
        poc_axis_init _ _ _ "Fin 250", OF _ a] n a s l
    by (simp add: Let_def)
qed

text \<open>
  With an adjustment attached, the setters of the bounds end in the handler
  \<^verbatim>\<open>poc_axis_adj_changed\<close>, which sets the mode-space bounds to the adjustment's window and
  leaves the major interval as it is. An axis from 0 to 100 gets an adjustment, whose
  page size then becomes 5; \<^verbatim>\<open>poc_axis_set_upper_bound\<close> with 200 leaves the span 5 and the
  major interval 100.
\<close>

lemma set_upper_bound_with_adjustment:
  "(let ax1 = poc_axis_configure poc_axis_init POC_AXIS_LINEAR (Fin 0) (Fin 100);
        ax2 = poc_axis_set_adjustment ax1 (Some adj0);
        adj1 = (the (adjustment ax2))\<lparr>adj_page_size := Fin 5\<rparr>;
        ax3 = poc_axis_adj_changed adj1 ax2;
        ax4 = poc_axis_set_upper_bound ax3 (Fin 200)
    in auto_interval ax4 \<and> dsub (upper_mode ax4) (lower_mode ax4) = Fin 5 \<and>
       major_interval ax4 = Fin 100)"
proof -
  define ax2 where
    "ax2 = poc_axis_set_adjustment
             (poc_axis_configure poc_axis_init POC_AXIS_LINEAR (Fin 0) (Fin 100)) (Some adj0)"
  define ax3 where
    "ax3 = poc_axis_adj_changed ((the (adjustment ax2))\<lparr>adj_page_size := Fin 5\<rparr>) ax2"
  define ax3' where "ax3' = poc_axis_update_bounds (ax3\<lparr>upper_bound := Fin 200\<rparr>)"
  have 2: "ax2 = \<lparr>axis_mode = POC_AXIS_LINEAR, lower_bound = Fin 0, upper_bound = Fin 100,
                  major_interval = Fin 100, auto_interval = True, minor_divisions = 5,
                  adjustment = Some \<lparr>adj_value = Fin 0, adj_lower = Fin 0,
                    adj_upper = Fin 100, adj_step_increment = Fin 10,
                    adj_page_increment = Fin 50, adj_page_size = Fin 100\<rparr>,
                  lower_mode = Fin 0, upper_mode = Fin 100,
                  minor_interval = ddiv (Fin 100) (guint_to_double 5)\<rparr>"
    unfolding ax2_def
    by (simp add: poc_axis_configure_def poc_axis_set_adjustment_def poc_axis_init_def
        poc_axis_update_bounds_def Let_def dge_def)
  have 3: "ax3 = \<lparr>axis_mode = POC_AXIS_LINEAR, lower_bound = Fin 0, upper_bound = Fin 100,
                  major_interval = Fin 100, auto_interval = True, minor_divisions = 5,
                  adjustment = Some \<lparr>adj_value = Fin 0, adj_lower = Fin 0,
                    adj_upper = Fin 100, adj_step_increment = Fin 10,
                    adj_page_increment = Fin 50, adj_page_size = Fin 5\<rparr>,
                  lower_mode = Fin 0, upper_mode = Fin 5,
                  minor_interval = ddiv (Fin 100) (guint_to_double 5)\<rparr>"
    unfolding ax3_def 2
    by (simp add: poc_axis_adj_changed_def poc_axis_adj_value_changed_def)
  have 4: "ax3' = \<lparr>axis_mode = POC_AXIS_LINEAR, lower_bound = Fin 0, upper_bound = Fin 200,
                  major_interval = Fin 100, auto_interval = True, minor_divisions = 5,
                  adjustment = Some \<lparr>adj_value = Fin 0, adj_lower = Fin 0,
                    adj_upper = Fin 100, adj_step_increment = Fin 10,
                    adj_page_increment = Fin 50, adj_page_size = Fin 5\<rparr>,
                  lower_mode = Fin 0, upper_mode = Fin 200,
                  minor_interval = ddiv (Fin 100) (guint_to_double 5)\<rparr>"
    unfolding ax3'_def 3
    by (simp add: poc_axis_update_bounds_def Let_def dge_def)
  have "poc_axis_set_upper_bound ax3 (Fin 200) =
          ax3\<lparr>lower_bound := Fin 0, upper_bound := Fin 200,
              lower_mode := Fin 0, upper_mode := Fin 5,
              adjustment := Some \<lparr>adj_value = Fin 0, adj_lower = Fin 0,
                adj_upper = Fin 200, adj_step_increment = Fin 10,
                adj_page_increment = Fin 50, adj_page_size = Fin 5\<rparr>\<rparr>"
    unfolding poc_axis_set_upper_bound_def ax3'_def [symmetric]
    unfolding 4 3
    by (simp add: gtk_adjustment_set_upper_def dne_def poc_axis_adj_changed_def
        poc_axis_adj_value_changed_def)
  then show ?thesis
    unfolding Let_def ax2_def [symmetric]
    unfolding ax3_def [symmetric]
    by (simp add: 3)
qed

subsection \<open>The order of the bounds\<close>

lemma update_bounds_sorts:
  assumes "lower_bound priv = Fin a" "upper_bound priv = Fin b"
  shows "lower_bound (poc_axis_update_bounds priv) = Fin (min a b) \<and>
         upper_bound (poc_axis_update_bounds priv) = Fin (max a b)"
  using assms
  by (simp add: poc_axis_update_bounds_def Let_def min_def max_def split: PocAxisMode.splits)

text \<open>
  \<^verbatim>\<open>poc_axis_update_bounds\<close> swaps a lower bound above the upper bound. The bounds are
  numbers \<open>a\<close> (lower) and \<open>b\<close> (upper): both given to \<^verbatim>\<open>poc_axis_configure\<close>, one given to
  \<^verbatim>\<open>poc_axis_set_lower_bound\<close> or \<^verbatim>\<open>poc_axis_set_upper_bound\<close> on an axis with no adjustment
  and the other the axis's own, or both the axis's own when another setter recomputes the
  bounds. Afterwards the lower bound is the smaller and the upper bound the larger of the
  two.
\<close>

lemma bounds_ordered:
  assumes "ax' = poc_axis_configure ax m (Fin a) (Fin b) \<or>
           adjustment ax = None \<and> upper_bound ax = Fin b \<and>
             ax' = poc_axis_set_lower_bound ax (Fin a) \<or>
           adjustment ax = None \<and> lower_bound ax = Fin a \<and>
             ax' = poc_axis_set_upper_bound ax (Fin b) \<or>
           lower_bound ax = Fin a \<and> upper_bound ax = Fin b \<and>
             (ax' = poc_axis_set_axis_mode ax m \<or> ax' = poc_axis_set_major_interval ax i \<or>
              ax' = poc_axis_set_auto_interval ax e \<or> ax' = poc_axis_set_minor_divisions ax d \<or>
              ax' = poc_axis_set_adjustment ax (Some adj))"
  shows "dle (lower_bound ax') (upper_bound ax') \<and>
         lower_bound ax' = Fin (min a b) \<and> upper_bound ax' = Fin (max a b)"
proof -
  have "lower_bound ax' = Fin (min a b) \<and> upper_bound ax' = Fin (max a b)"
    using assms
    unfolding poc_axis_configure_def poc_axis_set_lower_bound_def poc_axis_set_upper_bound_def
      poc_axis_set_axis_mode_def poc_axis_set_major_interval_def poc_axis_set_auto_interval_def
      poc_axis_set_minor_divisions_def poc_axis_set_adjustment_def
    by (elim disjE conjE) (simp_all add: Let_def update_bounds_sorts)
  then show ?thesis by simp
qed

lemma configure_swaps:
  "(let ax' = poc_axis_configure poc_axis_init POC_AXIS_LINEAR (Fin 5) (Fin 1)
    in lower_bound ax' = Fin 1 \<and> upper_bound ax' = Fin 5 \<and>
       dle (lower_bound ax') (upper_bound ax'))"
  using bounds_ordered [of "poc_axis_configure poc_axis_init POC_AXIS_LINEAR (Fin 5) (Fin 1)"
      poc_axis_init POC_AXIS_LINEAR 5 1]
  by (simp add: Let_def)

text \<open>
  Claim C7 (the code departs from it): after an operation that updates the bounds,
  \<open>lower_bound \<le> upper_bound\<close> should hold. \<^verbatim>\<open>poc_axis_configure\<close> does not pass the new
  bounds to an attached adjustment, and \<^verbatim>\<open>poc_axis_adj_changed\<close> writes the adjustment's
  lower and upper into the bounds without \<^verbatim>\<open>poc_axis_update_bounds\<close>. A new axis (bounds
  0 and 1) gets an adjustment, whose range becomes 0 to 1; the axis is configured as
  linear from 10 to 20; \<^verbatim>\<open>poc_axis_set_lower_bound\<close> is given 15, below the upper bound 20.
  The adjustment's lower changes from 0 to 15, the handler runs, and the axis is left
  with the lower bound 15 and the upper bound 1.
\<close>

theorem set_lower_bound_inverts_bounds:
  "(let ax1 = poc_axis_set_adjustment poc_axis_init (Some adj0);
        ax2 = poc_axis_configure ax1 POC_AXIS_LINEAR (Fin 10) (Fin 20);
        ax3 = poc_axis_set_lower_bound ax2 (Fin 15)
    in lower_bound ax2 = Fin 10 \<and> upper_bound ax2 = Fin 20 \<and>
       map_option adj_lower (adjustment ax2) = Some (Fin 0) \<and>
       map_option adj_upper (adjustment ax2) = Some (Fin 1) \<and>
       lower_bound ax3 = Fin 15 \<and> upper_bound ax3 = Fin 1 \<and>
       \<not> dle (lower_bound ax3) (upper_bound ax3))"
proof -
  define ax2 where
    "ax2 = poc_axis_configure (poc_axis_set_adjustment poc_axis_init (Some adj0))
             POC_AXIS_LINEAR (Fin 10) (Fin 20)"
  define ax2' where "ax2' = poc_axis_update_bounds (ax2\<lparr>lower_bound := Fin 15\<rparr>)"
  have 2: "ax2 = \<lparr>axis_mode = POC_AXIS_LINEAR, lower_bound = Fin 10, upper_bound = Fin 20,
                  major_interval = Fin 10, auto_interval = True, minor_divisions = 5,
                  adjustment = Some \<lparr>adj_value = Fin 0, adj_lower = Fin 0, adj_upper = Fin 1,
                    adj_step_increment = Fin (1 / 10), adj_page_increment = Fin (1 / 2),
                    adj_page_size = Fin 1\<rparr>,
                  lower_mode = Fin 10, upper_mode = Fin 20,
                  minor_interval = ddiv (Fin 10) (guint_to_double 5)\<rparr>"
    unfolding ax2_def
    by (simp add: poc_axis_set_adjustment_def poc_axis_init_def poc_axis_configure_def
        poc_axis_update_bounds_def Let_def dge_def)
  have 3: "lower_bound ax2' = Fin 15 \<and> upper_bound ax2' = Fin 20 \<and>
           lower_mode ax2' = Fin 15 \<and> axis_mode ax2' = POC_AXIS_LINEAR \<and>
           adjustment ax2' = adjustment ax2"
    unfolding ax2'_def 2
    by (simp add: poc_axis_update_bounds_def Let_def dge_def)
  have 4: "lower_bound (poc_axis_set_lower_bound ax2 (Fin 15)) = Fin 15 \<and>
           upper_bound (poc_axis_set_lower_bound ax2 (Fin 15)) = Fin 1"
    unfolding poc_axis_set_lower_bound_def ax2'_def [symmetric]
    using 3
    by (simp add: 2 Let_def gtk_adjustment_set_lower_def dne_def poc_axis_adj_changed_def
        poc_axis_adj_value_changed_def)
  show ?thesis
    unfolding Let_def ax2_def [symmetric]
    using 4 by (simp add: 2)
qed

subsection \<open>Projection\<close>

text \<open>
  Without rounding the mirror identity is exact: for every axis state, every value and
  every positive \<open>n\<close>, \<open>project(value, -n) = (n - 1) - project(value, n)\<close>, also where the
  projection is not a finite number.
\<close>

lemma project_mirror_exact:
  assumes "0 < n"
  shows "poc_axis_project priv v (- n) =
         dsub (Fin (of_int n - 1)) (poc_axis_project priv v n)"
proof -
  define t where
    "t = ddiv (dsub (case axis_mode priv of
                       POC_AXIS_LINEAR \<Rightarrow> v
                     | POC_AXIS_LOG_OCTAVE \<Rightarrow> dlog 2 v
                     | POC_AXIS_LOG_DECADE \<Rightarrow> dlog 10 v) (lower_mode priv))
              (dsub (upper_mode priv) (lower_mode priv))"
  have "dmul (dsub (Fin 1) t) (Fin (of_int n - 1)) =
        dsub (Fin (of_int n - 1)) (dmul t (Fin (of_int n - 1)))"
    using assms by (cases t) (auto simp: dsub_def algebra_simps)
  then show ?thesis
    using assms
    by (simp add: poc_axis_project_def poc_axis_linear_project_def Let_def gint_to_double_def
        t_def)
qed

text \<open>
  With rounding the two sides differ: \<open>(1 - t) * scale\<close> and \<open>scale - t * scale\<close> round
  at different places. On a linear axis from 0 to 10 the value 7 has \<open>t\<close> the binary64
  number nearest to 7/10, which is below 7/10; for the norm 101 the mirrored projection
  is \<open>30 + 2 powi (- 48)\<close> and the direct one is 70.
\<close>

lemma seven_tenths: "fdiv (Fin 7) (Fin 10) = Fin (6305039478318694 / 2 ^ 53)"
  using dround_eq [of "- 1" "7 / 10" 6305039478318694]
  by (simp add: fdiv_def round_half_even_def power_int_minus)

lemma scale_100: "fsub (Fin 101) (Fin 1) = Fin 100"
  using dround_of_int [of 100] by (simp add: fsub_def)

lemma one_minus_seven_tenths:
  "fsub (Fin 1) (Fin (6305039478318694 / 2 ^ 53)) = Fin (5404319552844596 / 2 ^ 54)"
  using dround_eq [of "- 2" "1 - 6305039478318694 / 2 ^ 53" 5404319552844596]
  by (simp add: fsub_def round_half_even_def power_int_minus)

lemma mirrored_7_of_10:
  "fmul (Fin (5404319552844596 / 2 ^ 54)) (Fin 100) = Fin (8444249301319681 / 2 ^ 48)"
  using dround_eq [of 4 "5404319552844596 / 2 ^ 54 * 100" 8444249301319681]
  by (simp add: fmul_def round_half_even_def power_int_minus)

lemma direct_7_of_10: "fmul (Fin (6305039478318694 / 2 ^ 53)) (Fin 100) = Fin 70"
  using dround_eq [of 6 "6305039478318694 / 2 ^ 53 * 100" 4925812092436480]
  by (simp add: fmul_def round_half_even_def power_int_minus)

lemma project_7_of_10:
  "poc_axis_linear_project_ieee
     (poc_axis_configure poc_axis_init POC_AXIS_LINEAR (Fin 0) (Fin 10)) (Fin 7) (- 101) =
     Fin (30 + 1 / 2 ^ 48) \<and>
   poc_axis_linear_project_ieee
     (poc_axis_configure poc_axis_init POC_AXIS_LINEAR (Fin 0) (Fin 10)) (Fin 7) 101 = Fin 70"
proof -
  define ax where "ax = poc_axis_configure poc_axis_init POC_AXIS_LINEAR (Fin 0) (Fin 10)"
  have m: "lower_mode ax = Fin 0" "upper_mode ax = Fin 10"
    by (simp_all add: ax_def poc_axis_configure_def poc_axis_init_def poc_axis_update_bounds_def
        Let_def)
  have 7: "fsub (Fin 7) (Fin 0) = Fin 7"
    using dround_of_int [of 7] by (simp add: fsub_def)
  have 10: "fsub (Fin 10) (Fin 0) = Fin 10"
    using dround_of_int [of 10] by (simp add: fsub_def)
  show ?thesis
    unfolding ax_def [symmetric]
    by (simp add: poc_axis_linear_project_ieee_def gint_to_double_def m 7 10 scale_100
        seven_tenths [simplified] one_minus_seven_tenths [simplified]
        mirrored_7_of_10 [simplified] direct_7_of_10 [simplified])
qed

lemma mirror_bound:
  assumes "fmul (fsub (Fin 1) v1) (Fin s) = Fin a" "fmul v1 (Fin s) = Fin b" "1 \<le> s"
  shows "\<bar>a - (s - b)\<bar> \<le> 2 powi (- 51) * (\<bar>a\<bar> + \<bar>b\<bar>) + 2 powi (- 1074) * (s + 1)"
proof -
  define u :: real where "u = 2 powi (- 53)"
  define h :: real where "h = 2 powi (- 1075)"
  have u: "0 < u" "u \<le> 1" and h: "0 < h"
    by (simp_all add: u_def h_def power_int_minus field_simps)
  have c: "2 powi (- 51) = 4 * u" "2 powi (- 1074) = 2 * h"
    by (simp_all add: u_def h_def power_int_minus)
  obtain t where t: "v1 = Fin t" and b: "dround (Fin (t * s)) = Fin b"
    using fmul_Fin_D [OF assms(2)] by blast
  obtain wd where "fsub (Fin 1) v1 = Fin wd" and a: "dround (Fin (wd * s)) = Fin a"
    using fmul_Fin_D [OF assms(1)] by blast
  then have w: "dround (Fin (1 - t)) = Fin wd"
    using fsub_Fin_D [of 1 v1 wd] t by simp
  have e1: "\<bar>a - wd * s\<bar> \<le> u * \<bar>a\<bar> + h"
    using dround_error(1) [OF a] by (simp add: u_def h_def)
  have e2: "\<bar>wd - (1 - t)\<bar> \<le> u * \<bar>wd\<bar> + h"
    using dround_error(1) [OF w] by (simp add: u_def h_def)
  have e3: "\<bar>b - t * s\<bar> \<le> u * \<bar>b\<bar> + h"
    using dround_error(1) [OF b] by (simp add: u_def h_def)
  have s0: "0 \<le> s" using assms(3) by simp
  have "\<bar>wd\<bar> * s = \<bar>wd * s\<bar>"
    using s0 by (simp add: abs_mult)
  also have "\<dots> \<le> \<bar>a\<bar> + \<bar>a - wd * s\<bar>"
    by simp
  finally have ws: "\<bar>wd\<bar> * s \<le> \<bar>a\<bar> + (u * \<bar>a\<bar> + h)"
    using e1 by simp
  have "\<bar>s * (wd - (1 - t))\<bar> = s * \<bar>wd - (1 - t)\<bar>"
    using s0 by (simp add: abs_mult)
  also have "\<dots> \<le> s * (u * \<bar>wd\<bar> + h)"
    using e2 s0 by (intro mult_left_mono) auto
  also have "\<dots> = u * (\<bar>wd\<bar> * s) + s * h"
    by (simp add: algebra_simps)
  also have "\<dots> \<le> u * (\<bar>a\<bar> + (u * \<bar>a\<bar> + h)) + s * h"
    using ws u(1) by (intro add_right_mono mult_left_mono) auto
  finally have e2s: "\<bar>s * (wd - (1 - t))\<bar> \<le> u * (\<bar>a\<bar> + (u * \<bar>a\<bar> + h)) + s * h" .
  have "a - (s - b) = (a - wd * s) + s * (wd - (1 - t)) + (b - t * s)"
    by (simp add: algebra_simps)
  then have "\<bar>a - (s - b)\<bar> \<le> \<bar>a - wd * s\<bar> + \<bar>s * (wd - (1 - t))\<bar> + \<bar>b - t * s\<bar>"
    by linarith
  then have 1: "\<bar>a - (s - b)\<bar> \<le>
                (u * \<bar>a\<bar> + h) + (u * (\<bar>a\<bar> + (u * \<bar>a\<bar> + h)) + s * h) + (u * \<bar>b\<bar> + h)"
    using e1 e2s e3 by linarith
  have 2: "u * (u * \<bar>a\<bar>) \<le> u * \<bar>a\<bar>"
    using u by (intro mult_left_le_one_le) auto
  have 3: "u * h \<le> s * h"
    using u(2) assms(3) h by (intro mult_right_mono) auto
  have 4: "0 \<le> u * \<bar>a\<bar>" "0 \<le> u * \<bar>b\<bar>" "0 \<le> s * h"
    using u h s0 by simp_all
  have "(u * \<bar>a\<bar> + h) + (u * (\<bar>a\<bar> + (u * \<bar>a\<bar> + h)) + s * h) + (u * \<bar>b\<bar> + h) \<le>
        4 * u * (\<bar>a\<bar> + \<bar>b\<bar>) + 2 * h * (s + 1)"
    using 2 3 4 by (simp add: algebra_simps)
  then show ?thesis
    unfolding c using 1 by linarith
qed

lemma linear_project_ieee_scale:
  assumes "0 < n" "n < 2 ^ 31"
  shows "poc_axis_linear_project_ieee priv v n =
           fmul (fdiv (fsub v (lower_mode priv)) (fsub (upper_mode priv) (lower_mode priv)))
             (Fin (of_int n - 1))"
    and "poc_axis_linear_project_ieee priv v (- n) =
           fmul (fsub (Fin 1)
                   (fdiv (fsub v (lower_mode priv)) (fsub (upper_mode priv) (lower_mode priv))))
             (Fin (of_int n - 1))"
proof -
  have "\<bar>n - 1\<bar> < 2 ^ 53"
    using assms by simp
  then have "dround (Fin (of_int (n - 1))) = Fin (of_int (n - 1))"
    by (rule dround_of_int)
  then have s: "fsub (Fin (of_int n)) (Fin 1) = Fin (of_int n - 1)"
    by (simp add: fsub_def)
  show "poc_axis_linear_project_ieee priv v n =
           fmul (fdiv (fsub v (lower_mode priv)) (fsub (upper_mode priv) (lower_mode priv)))
             (Fin (of_int n - 1))"
    using assms(1) by (simp add: poc_axis_linear_project_ieee_def Let_def gint_to_double_def s)
  show "poc_axis_linear_project_ieee priv v (- n) =
           fmul (fsub (Fin 1)
                   (fdiv (fsub v (lower_mode priv)) (fsub (upper_mode priv) (lower_mode priv))))
             (Fin (of_int n - 1))"
    using assms(1) by (simp add: poc_axis_linear_project_ieee_def Let_def gint_to_double_def s)
qed

lemma linear_project_mirror_rounded:
  assumes "0 < n" "n < 2 ^ 31"
    and "poc_axis_linear_project_ieee priv v (- n) = Fin a"
    and "poc_axis_linear_project_ieee priv v n = Fin b"
  shows "\<bar>a - ((of_int n - 1) - b)\<bar> \<le>
         2 powi (- 51) * (\<bar>a\<bar> + \<bar>b\<bar>) + 2 powi (- 1074) * of_int n"
proof (cases "n = 1")
  case True
  have "fmul c (Fin 0) = Fin r \<Longrightarrow> r = 0" for c r
    using fmul_Fin_D [of c 0 r] by auto
  then have "a = 0" "b = 0"
    using assms(3,4) True linear_project_ieee_scale [of 1 priv v] by auto
  then show ?thesis
    using True by simp
next
  case False
  then have "1 \<le> real_of_int n - 1"
    using assms(1) by simp
  then show ?thesis
    using mirror_bound [of _ "of_int n - 1" a b] assms(3,4)
    unfolding linear_project_ieee_scale [OF assms(1,2)] by simp
qed

lemma project_ieee_linear:
  "axis_mode priv = POC_AXIS_LINEAR \<Longrightarrow>
   poc_axis_project_ieee lg priv v n = poc_axis_linear_project_ieee priv v n"
  by (simp add: poc_axis_project_ieee_def)

lemma configure_linear_mode:
  "axis_mode (poc_axis_configure priv POC_AXIS_LINEAR lo hi) = POC_AXIS_LINEAR"
  by (simp add: poc_axis_configure_def poc_axis_update_bounds_def Let_def)

text \<open>
  Claim C3, as the specification states it: for every axis state, every value and every
  positive \<open>n\<close>, \<open>project(value, -n)\<close> equals \<open>(n - 1) - project(value, n)\<close>. It fails: on a
  linear axis from 0 to 10, \<open>project(7, -101)\<close> is \<open>30 + 2 powi (- 48)\<close> (printed
  30.000000000000004) and \<open>100 - project(7, 101) = 100 - 70 = 30\<close>. The axis is linear,
  so the logarithm passed to \<open>poc_axis_project_ieee\<close> is not called.
\<close>

theorem project_mirror_counterexample:
  "(let ax = poc_axis_configure poc_axis_init POC_AXIS_LINEAR (Fin 0) (Fin 10)
    in poc_axis_project_ieee dlog ax (Fin 7) (- 101) = Fin (30 + 1 / 2 ^ 48) \<and>
       poc_axis_project_ieee dlog ax (Fin 7) 101 = Fin 70 \<and>
       fsub (Fin (101 - 1)) (Fin 70) = Fin 30 \<and>
       poc_axis_project_ieee dlog ax (Fin 7) (- 101) \<noteq>
         fsub (Fin (101 - 1)) (poc_axis_project_ieee dlog ax (Fin 7) 101))"
proof -
  have s: "fsub (Fin 100) (Fin 70) = Fin 30"
    using dround_of_int [of 30] by (simp add: fsub_def)
  show ?thesis
    unfolding Let_def project_ieee_linear [OF configure_linear_mode]
    using project_7_of_10 s by simp
qed

text \<open>
  Claim C3, amended: for every axis state, every value and every positive \<^verbatim>\<open>gint\<close> \<open>n\<close>,
  \<open>project(value, -n)\<close> equals \<open>(n - 1) - project(value, n)\<close> up to rounding: when both
  projections are finite numbers \<open>a\<close> and \<open>b\<close>, then
  \<open>\<bar>a - ((n - 1) - b)\<bar> \<le> 2 powi (- 51) * (\<bar>a\<bar> + \<bar>b\<bar>) + 2 powi (- 1074) * n\<close>. This holds for
  \<^verbatim>\<open>poc_axis_linear_project\<close> and for \<^verbatim>\<open>poc_axis_project\<close>, whatever the library's
  logarithm returns.
\<close>

theorem project_mirror_rounded:
  assumes "0 < n" "n < 2 ^ 31"
    and "p = poc_axis_linear_project_ieee priv \<or> p = poc_axis_project_ieee lg priv"
    and "p v (- n) = Fin a" "p v n = Fin b"
  shows "\<bar>a - ((of_int n - 1) - b)\<bar> \<le>
         2 powi (- 51) * (\<bar>a\<bar> + \<bar>b\<bar>) + 2 powi (- 1074) * of_int n"
  using assms(3)
proof
  assume "p = poc_axis_linear_project_ieee priv"
  then show ?thesis
    using linear_project_mirror_rounded [OF assms(1,2), of priv v a b] assms(4,5) by simp
next
  assume "p = poc_axis_project_ieee lg priv"
  then show ?thesis
    using linear_project_mirror_rounded [OF assms(1,2), of priv _ a b] assms(4,5)
    by (simp add: poc_axis_project_ieee_def)
qed

theorem project_mirror_rounded_witness:
  "(let ax = poc_axis_configure poc_axis_init POC_AXIS_LINEAR (Fin 0) (Fin 10);
        a = 30 + 1 / 2 ^ 48; b = 70
    in poc_axis_linear_project_ieee ax (Fin 7) (- 101) = Fin a \<and>
       poc_axis_linear_project_ieee ax (Fin 7) 101 = Fin b \<and>
       \<bar>a - ((101 - 1) - b)\<bar> \<le> 2 powi (- 51) * (\<bar>a\<bar> + \<bar>b\<bar>) + 2 powi (- 1074) * 101)"
  using project_mirror_rounded
    [where n = 101 and v = "Fin 7" and a = "30 + 1 / 2 ^ 48" and b = 70
       and priv = "poc_axis_configure poc_axis_init POC_AXIS_LINEAR (Fin 0) (Fin 10)"
       and p = "poc_axis_linear_project_ieee
                  (poc_axis_configure poc_axis_init POC_AXIS_LINEAR (Fin 0) (Fin 10))"]
    project_7_of_10
  by (simp add: Let_def)

lemma linear_project_degenerate:
  assumes "lower_mode priv = upper_mode priv"
  shows "\<not> isfinite (poc_axis_linear_project priv v n)"
proof -
  have d: "dsub (upper_mode priv) (lower_mode priv) = Fin 0 \<or>
           dsub (upper_mode priv) (lower_mode priv) = NaN"
    using assms by (cases "upper_mode priv") (auto simp: dsub_def)
  have t: "\<not> isfinite (ddiv x (dsub (upper_mode priv) (lower_mode priv)))" for x
    using d by (cases x) (auto split: if_splits)
  have m: "\<not> isfinite c \<Longrightarrow> \<not> isfinite (dmul c (Fin s))" for c s
    by (cases c) auto
  have s: "\<not> isfinite c \<Longrightarrow> \<not> isfinite (dsub (Fin 1) c)" for c
    by (cases c) (auto simp: dsub_def)
  show ?thesis
    by (simp add: poc_axis_linear_project_def Let_def gint_to_double_def m s t)
qed

lemma configure_equal_bounds:
  "lower_bound (poc_axis_configure ax m (Fin c) (Fin c)) = Fin c \<and>
   upper_bound (poc_axis_configure ax m (Fin c) (Fin c)) = Fin c \<and>
   lower_mode (poc_axis_configure ax m (Fin c) (Fin c)) =
     upper_mode (poc_axis_configure ax m (Fin c) (Fin c))"
  by (simp add: poc_axis_configure_def poc_axis_update_bounds_def Let_def
      split: PocAxisMode.splits)

text \<open>
  Claim C10: equal bounds are accepted (configuring any axis \<open>ax0\<close>, a new one for
  instance, with lower = upper = \<open>c\<close> keeps both and makes \<open>lower_mode = upper_mode\<close>: the
  swap fires on strict inversion only), and on every axis with \<open>lower_mode = upper_mode\<close>
  the result of \<^verbatim>\<open>poc_axis_linear_project\<close> and of \<^verbatim>\<open>poc_axis_project\<close> is, for every value
  and every norm, not a finite number (it is NaN or an infinity).
\<close>

theorem project_not_finite:
  "lower_bound (poc_axis_configure ax0 m (Fin c) (Fin c)) = Fin c \<and>
   upper_bound (poc_axis_configure ax0 m (Fin c) (Fin c)) = Fin c \<and>
   lower_mode (poc_axis_configure ax0 m (Fin c) (Fin c)) =
     upper_mode (poc_axis_configure ax0 m (Fin c) (Fin c)) \<and>
   (lower_mode ax = upper_mode ax \<longrightarrow>
      \<not> isfinite (poc_axis_linear_project ax v n) \<and> \<not> isfinite (poc_axis_project ax v n))"
  using configure_equal_bounds [of ax0 m c]
  by (simp add: linear_project_degenerate poc_axis_project_def)

theorem project_not_finite_witness:
  "(let ax = poc_axis_configure poc_axis_init POC_AXIS_LINEAR (Fin 3) (Fin 3)
    in lower_bound ax = Fin 3 \<and> upper_bound ax = Fin 3 \<and> lower_mode ax = upper_mode ax \<and>
       poc_axis_project ax (Fin 3) 640 = NaN \<and> poc_axis_project ax (Fin 4) 640 = PInf \<and>
       \<not> isfinite (poc_axis_linear_project ax (Fin 4) 640) \<and>
       \<not> isfinite (poc_axis_project ax (Fin 4) 640))"
proof -
  let ?ax = "poc_axis_configure poc_axis_init POC_AXIS_LINEAR (Fin 3) (Fin 3)"
  have n: "poc_axis_project ?ax (Fin 3) 640 = NaN" "poc_axis_project ?ax (Fin 4) 640 = PInf"
    by (simp_all add: poc_axis_project_def poc_axis_linear_project_def poc_axis_configure_def
        poc_axis_init_def poc_axis_update_bounds_def Let_def gint_to_double_def)
  show ?thesis
    using project_not_finite [of poc_axis_init POC_AXIS_LINEAR 3 ?ax "Fin 4" 640] n
    by (simp add: Let_def)
qed

text \<open>
  A linear axis whose mode-space bounds are its bounds (as \<^verbatim>\<open>poc_axis_update_bounds\<close>
  leaves them) projects its lower bound to 0, its upper bound to \<open>n - 1\<close>, and values in
  their order.
\<close>

lemma update_bounds_linear:
  assumes "axis_mode priv = POC_AXIS_LINEAR"
  shows "lower_mode (poc_axis_update_bounds priv) = lower_bound (poc_axis_update_bounds priv) \<and>
         upper_mode (poc_axis_update_bounds priv) = upper_bound (poc_axis_update_bounds priv)"
  using assms by (simp add: poc_axis_update_bounds_def Let_def)

lemma linear_project_in_range:
  assumes "axis_mode priv = POC_AXIS_LINEAR"
    and "lower_mode priv = Fin lo" "upper_mode priv = Fin hi" "lo < hi" "0 < n"
  shows "poc_axis_project priv (Fin v) n = Fin ((v - lo) / (hi - lo) * (of_int n - 1))"
  using assms
  by (simp add: poc_axis_project_def poc_axis_linear_project_def Let_def gint_to_double_def)

lemma project_monotone_endpoints:
  assumes "axis_mode priv = POC_AXIS_LINEAR"
    and "lower_bound priv = Fin lo" "upper_bound priv = Fin hi"
    and "lower_mode priv = lower_bound priv" "upper_mode priv = upper_bound priv"
    and "lo < hi" "0 < n"
  shows "poc_axis_project priv (lower_bound priv) n = Fin 0 \<and>
         poc_axis_project priv (upper_bound priv) n = Fin (of_int n - 1) \<and>
         (\<forall>v w. v \<le> w \<longrightarrow>
            dle (poc_axis_project priv (Fin v) n) (poc_axis_project priv (Fin w) n))"
proof -
  have p: "poc_axis_project priv (Fin v) n = Fin ((v - lo) / (hi - lo) * (of_int n - 1))" for v
    using linear_project_in_range [of priv lo hi n v] assms by simp
  have m: "(v - lo) / (hi - lo) * (of_int n - 1) \<le> (w - lo) / (hi - lo) * (of_int n - 1)"
    if "v \<le> w" for v w :: real
    using that assms(6,7) by (intro mult_right_mono divide_right_mono) auto
  have "dle (poc_axis_project priv (Fin v) n) (poc_axis_project priv (Fin w) n)"
    if "v \<le> w" for v w
    unfolding p using m [OF that] by simp
  moreover have "poc_axis_project priv (lower_bound priv) n = Fin 0"
    unfolding assms(2) p by simp
  moreover have "poc_axis_project priv (upper_bound priv) n = Fin (of_int n - 1)"
    unfolding assms(3) p using assms(6) by simp
  ultimately show ?thesis by blast
qed

lemma monotone_any_window:
  assumes "axis_mode priv = POC_AXIS_LINEAR"
    and "lower_mode priv = Fin lo" "upper_mode priv = Fin hi" "lo < hi" "0 < n" "v \<le> w"
  shows "dle (poc_axis_project priv (Fin v) n) (poc_axis_project priv (Fin w) n)"
proof -
  have "(v - lo) / (hi - lo) * (of_int n - 1) \<le> (w - lo) / (hi - lo) * (of_int n - 1)"
    using assms(4-6) by (intro mult_right_mono divide_right_mono) auto
  then show ?thesis
    unfolding linear_project_in_range [OF assms(1-5)] by simp
qed

text \<open>
  Claim C2 (the code departs from it): a linear axis with no adjustment attached and
  \<open>lower_mode < upper_mode\<close> should project its lower bound to 0 and its upper bound to
  \<open>n - 1\<close>. Detaching an adjustment (\<^verbatim>\<open>poc_axis_set_adjustment\<close> with \<^verbatim>\<open>NULL\<close>) does not
  recompute the mode-space bounds, so they stay at the window the adjustment showed last.
  A new axis (bounds 0 and 1) gets an adjustment; the adjustment's page size becomes 1/2
  (signal \<^verbatim>\<open>changed\<close>), then its value 1/2 (signal \<^verbatim>\<open>value-changed\<close>); the adjustment is
  detached. The axis is linear, has no adjustment, \<open>lower_mode = 1/2 < 1 = upper_mode\<close>,
  and projects its lower bound 0 to -10 for the norm 11, while
  \<^verbatim>\<open>poc_axis_get_display_range\<close> reports the full range.
\<close>

theorem detached_axis_keeps_window:
  "(let ax1 = poc_axis_set_adjustment poc_axis_init (Some adj0);
        adj1 = (the (adjustment ax1))\<lparr>adj_page_size := Fin (1 / 2)\<rparr>;
        ax2 = poc_axis_adj_changed adj1 ax1;
        adj2 = adj1\<lparr>adj_value := Fin (1 / 2)\<rparr>;
        ax3 = poc_axis_adj_value_changed adj2 ax2;
        ax4 = poc_axis_set_adjustment ax3 None
    in axis_mode ax4 = POC_AXIS_LINEAR \<and> adjustment ax4 = None \<and>
       lower_bound ax4 = Fin 0 \<and> upper_bound ax4 = Fin 1 \<and>
       lower_mode ax4 = Fin (1 / 2) \<and> upper_mode ax4 = Fin 1 \<and>
       dlt (lower_mode ax4) (upper_mode ax4) \<and>
       poc_axis_project ax4 (lower_bound ax4) 11 = Fin (- 10) \<and>
       poc_axis_project ax4 (upper_bound ax4) 11 = Fin 10 \<and>
       poc_axis_get_display_range ax4 = (Fin 0, Fin 1))"
  by (simp add: poc_axis_set_adjustment_def poc_axis_init_def poc_axis_update_bounds_def Let_def
      poc_axis_adj_value_changed_def poc_axis_adj_changed_def poc_axis_project_def
      poc_axis_linear_project_def gint_to_double_def dge_def poc_axis_get_display_range_def
      poc_axis_get_range_def)

subsection \<open>The grid\<close>

lemma decade_loop:
  "grid_decade_loop xy (Fin 2) path = Some (path @ decade_minor_positions xy)"
  by (simp add: grid_decade_loop.simps decade_minor_positions_def)

lemma major_loop_finite:
  assumes "0 < m"
  shows "grid_major_loop (Fin m) (Fin limit) (Fin xy) path =
         Some (path @ map Fin (grid_positions m limit xy))"
  using assms
proof (induction m limit xy arbitrary: path rule: grid_positions.induct)
  case (1 interval limit xy)
  show ?case
  proof (cases "xy \<le> limit")
    case True
    have "grid_major_loop (Fin interval) (Fin limit) (Fin (xy + interval)) (path @ [Fin xy]) =
          Some ((path @ [Fin xy]) @ map Fin (grid_positions interval limit (xy + interval)))"
      using True "1.prems" by (intro "1.IH") auto
    then show ?thesis
      using True "1.prems"
      by (subst grid_major_loop.simps, subst grid_positions.simps) simp
  next
    case False
    then show ?thesis
      by (subst grid_major_loop.simps, subst grid_positions.simps) simp
  qed
qed

lemma minor_loop_finite:
  assumes "axis_mode priv = POC_AXIS_LOG_DECADE" "upper_mode priv = Fin u"
    "major_interval priv = Fin m" "0 < m"
  shows "grid_minor_loop priv (Fin xy) path =
         Some (path @ concat (map (\<lambda>x. decade_minor_positions (Fin x))
                                (grid_positions m u xy)))"
  using assms(2-4)
proof (induction m u xy arbitrary: path rule: grid_positions.induct)
  case (1 interval limit xy)
  show ?case
  proof (cases "xy \<le> limit")
    case True
    have "grid_minor_loop priv (Fin (xy + interval)) (path @ decade_minor_positions (Fin xy)) =
          Some ((path @ decade_minor_positions (Fin xy)) @
                concat (map (\<lambda>x. decade_minor_positions (Fin x))
                          (grid_positions interval limit (xy + interval))))"
      using True "1.prems" by (intro "1.IH") auto
    then show ?thesis
      using True "1.prems" assms(1)
      by (subst grid_minor_loop.simps, subst grid_positions.simps) (simp add: decade_loop)
  next
    case False
    then show ?thesis
      using "1.prems"
      by (subst grid_minor_loop.simps, subst grid_positions.simps) simp
  qed
qed

lemma minor_loop_groups:
  assumes "grid_minor_loop priv xy path = Some r"
  shows "axis_mode priv = POC_AXIS_LOG_DECADE \<longrightarrow>
         (\<exists>xs. r = path @ concat (map decade_minor_positions xs))"
proof (rule grid_minor_loop.raw_induct
    [where P = "\<lambda>priv xy path r. axis_mode priv = POC_AXIS_LOG_DECADE \<longrightarrow>
                  (\<exists>xs. r = path @ concat (map decade_minor_positions xs))", OF _ assms])
  fix loop priv xy path r
  assume IH: "\<And>priv xy path r. loop priv xy path = Some r \<Longrightarrow>
                axis_mode priv = POC_AXIS_LOG_DECADE \<longrightarrow>
                (\<exists>xs. r = path @ concat (map decade_minor_positions xs))"
    and body: "(if dle xy (upper_mode priv)
                then Option.bind
                       (if axis_mode priv = POC_AXIS_LOG_DECADE
                        then grid_decade_loop xy (Fin 2) path
                        else grid_division_loop priv xy (minor_interval priv) path)
                       (loop priv (dadd xy (major_interval priv)))
                else Some path) = Some r"
  show "axis_mode priv = POC_AXIS_LOG_DECADE \<longrightarrow>
        (\<exists>xs. r = path @ concat (map decade_minor_positions xs))"
  proof
    assume mode: "axis_mode priv = POC_AXIS_LOG_DECADE"
    show "\<exists>xs. r = path @ concat (map decade_minor_positions xs)"
    proof (cases "dle xy (upper_mode priv)")
      case True
      then have "loop priv (dadd xy (major_interval priv)) (path @ decade_minor_positions xy) =
                 Some r"
        using body mode by (simp add: decade_loop)
      then obtain xs where
        "r = (path @ decade_minor_positions xy) @ concat (map decade_minor_positions xs)"
        using IH mode by blast
      then have "r = path @ concat (map decade_minor_positions (xy # xs))" by simp
      then show ?thesis by blast
    next
      case False
      then have "r = path @ concat (map decade_minor_positions [])"
        using body by simp
      then show ?thesis by blast
    qed
  qed
qed

text \<open>
  Whenever \<^verbatim>\<open>poc_axis_draw_grid\<close> returns on an axis in decade mode, the minor grid lines
  it has asked for come in groups of 8, one group per major position the minor loop has
  visited. Without rounding it returns when the mode-space bounds are finite and the
  major interval is positive, and the positions visited are
  \<open>floor(lower_mode / major_interval) * major_interval\<close> and every further step of the
  major interval up to \<open>upper_mode\<close>.
\<close>

lemma minor_lines_in_groups:
  assumes "axis_mode priv = POC_AXIS_LOG_DECADE" "minor_divisions priv \<noteq> 0"
    and "poc_axis_draw_grid priv = Some (major, minor)"
  shows "\<exists>xs. minor = concat (map decade_minor_positions xs)"
proof -
  obtain lf where "grid_minor_loop priv lf [] = Some minor"
    using assms(2,3) by (auto simp: poc_axis_draw_grid_def Let_def split: bind_splits)
  then show ?thesis
    using minor_loop_groups [of priv lf "[]" minor] assms(1) by simp
qed

lemma decade_minor_grid_exact:
  assumes "axis_mode priv = POC_AXIS_LOG_DECADE" "minor_divisions priv \<noteq> 0"
    and "lower_mode priv = Fin l" "upper_mode priv = Fin u"
    and "major_interval priv = Fin m" "0 < m"
  shows "poc_axis_draw_grid priv =
           Some (map Fin (grid_positions m (of_int \<lceil>u\<rceil>) (of_int \<lfloor>l / m\<rfloor> * m)),
                 concat (map (\<lambda>xy. decade_minor_positions (Fin xy))
                           (grid_positions m u (of_int \<lfloor>l / m\<rfloor> * m)))) \<and>
         decade_minor_positions (Fin x) =
           [Fin (x + log 10 2), Fin (x + log 10 3), Fin (x + log 10 4), Fin (x + log 10 5),
            Fin (x + log 10 6), Fin (x + log 10 7), Fin (x + log 10 8), Fin (x + log 10 9)]"
proof
  have lf: "dmul (dfloor (ddiv (lower_mode priv) (major_interval priv)))
              (major_interval priv) = Fin (of_int \<lfloor>l / m\<rfloor> * m)"
    using assms(3,5,6) by simp
  show "poc_axis_draw_grid priv =
           Some (map Fin (grid_positions m (of_int \<lceil>u\<rceil>) (of_int \<lfloor>l / m\<rfloor> * m)),
                 concat (map (\<lambda>xy. decade_minor_positions (Fin xy))
                           (grid_positions m u (of_int \<lfloor>l / m\<rfloor> * m))))"
    unfolding poc_axis_draw_grid_def Let_def lf
    using assms
    by (simp add: major_loop_finite minor_loop_finite [OF assms(1)])
  show "decade_minor_positions (Fin x) =
           [Fin (x + log 10 2), Fin (x + log 10 3), Fin (x + log 10 4), Fin (x + log 10 5),
            Fin (x + log 10 6), Fin (x + log 10 7), Fin (x + log 10 8), Fin (x + log 10 9)]"
    by (simp add: decade_minor_positions_def)
qed

text \<open>
  With rounding a step \<open>xy + major_interval\<close> is exact when the interval and the
  position are whole numbers below \<open>2 ^ 53\<close>; the loops then visit the same positions as
  without rounding. The automatic major interval is a whole number.
\<close>

lemma fadd_whole:
  assumes "\<bar>a + b\<bar> < 2 ^ 53"
  shows "fadd (Fin (of_int a)) (Fin (of_int b)) = Fin (of_int (a + b))"
  using dround_of_int [OF assms] by (simp add: fadd_def)

lemma decade_loop_ieee:
  "grid_decade_loop_ieee lg xy (Fin 2) path = Some (path @ decade_minor_positions_ieee lg xy)"
proof -
  have s: "fadd (Fin 2) (Fin 1) = Fin 3" "fadd (Fin 3) (Fin 1) = Fin 4"
    "fadd (Fin 4) (Fin 1) = Fin 5" "fadd (Fin 5) (Fin 1) = Fin 6"
    "fadd (Fin 6) (Fin 1) = Fin 7" "fadd (Fin 7) (Fin 1) = Fin 8"
    "fadd (Fin 8) (Fin 1) = Fin 9" "fadd (Fin 9) (Fin 1) = Fin 10"
    using fadd_whole [of 2 1] fadd_whole [of 3 1] fadd_whole [of 4 1] fadd_whole [of 5 1]
      fadd_whole [of 6 1] fadd_whole [of 7 1] fadd_whole [of 8 1] fadd_whole [of 9 1]
    by simp_all
  show ?thesis
    by (simp add: grid_decade_loop_ieee.simps decade_minor_positions_ieee_def s)
qed

lemma major_loop_ieee_whole:
  assumes "0 < k" "real k \<le> 2 ^ 50" "limit \<le> 2 ^ 51" "- (2 ^ 52) \<le> z"
  shows "grid_major_loop_ieee (Fin (real k)) (Fin limit) (Fin (of_int z)) path =
         Some (path @ map Fin (grid_positions (real k) limit (of_int z)))"
  using assms(3,4)
proof (induction "real k" limit "real_of_int z" arbitrary: z path rule: grid_positions.induct)
  case (1 limit)
  show ?case
  proof (cases "real_of_int z \<le> limit")
    case True
    have "real_of_int z \<le> 2 ^ 51"
      using True "1.prems"(1) by (rule order_trans)
    then have "real_of_int z + real k \<le> 2 ^ 51 + 2 ^ 50"
      using assms(2) by (rule add_mono)
    also have "\<dots> < 2 ^ 53"
      by simp
    finally have "real_of_int (z + int k) < real_of_int (2 ^ 53)"
      by simp
    then have "z + int k < 2 ^ 53"
      by (simp only: of_int_less_iff)
    then have "\<bar>z + int k\<bar> < 2 ^ 53"
      using "1.prems"(2) by simp
    then have a: "fadd (Fin (of_int z)) (Fin (real k)) = Fin (of_int (z + int k))"
      using fadd_whole [of z "int k"] by simp
    have "grid_major_loop_ieee (Fin (real k)) (Fin limit) (Fin (of_int (z + int k)))
            (path @ [Fin (of_int z)]) =
          Some ((path @ [Fin (of_int z)]) @
                map Fin (grid_positions (real k) limit (of_int (z + int k))))"
      using True assms(1) "1.prems" by (intro "1.hyps") auto
    then show ?thesis
      using True assms(1)
      by (subst grid_major_loop_ieee.simps, subst grid_positions.simps) (simp add: a)
  next
    case False
    then show ?thesis
      by (subst grid_major_loop_ieee.simps, subst grid_positions.simps) simp
  qed
qed

lemma minor_loop_ieee_whole:
  assumes "axis_mode priv = POC_AXIS_LOG_DECADE" "upper_mode priv = Fin u"
    and "major_interval priv = Fin (real k)" "0 < k" "real k \<le> 2 ^ 50"
    and "u \<le> 2 ^ 51" "- (2 ^ 52) \<le> z"
  shows "grid_minor_loop_ieee lg priv (Fin (of_int z)) path =
         Some (path @ concat (map (\<lambda>x. decade_minor_positions_ieee lg (Fin x))
                                (grid_positions (real k) u (of_int z))))"
  using assms(2,6,7)
proof (induction "real k" u "real_of_int z" arbitrary: z path rule: grid_positions.induct)
  case (1 limit)
  show ?case
  proof (cases "real_of_int z \<le> limit")
    case True
    have "real_of_int z \<le> 2 ^ 51"
      using True "1.prems"(2) by (rule order_trans)
    then have "real_of_int z + real k \<le> 2 ^ 51 + 2 ^ 50"
      using assms(5) by (rule add_mono)
    also have "\<dots> < 2 ^ 53"
      by simp
    finally have "real_of_int (z + int k) < real_of_int (2 ^ 53)"
      by simp
    then have "z + int k < 2 ^ 53"
      by (simp only: of_int_less_iff)
    then have "\<bar>z + int k\<bar> < 2 ^ 53"
      using "1.prems"(3) by simp
    then have a: "fadd (Fin (of_int z)) (Fin (real k)) = Fin (of_int (z + int k))"
      using fadd_whole [of z "int k"] by simp
    have "grid_minor_loop_ieee lg priv (Fin (of_int (z + int k)))
            (path @ decade_minor_positions_ieee lg (Fin (of_int z))) =
          Some ((path @ decade_minor_positions_ieee lg (Fin (of_int z))) @
                concat (map (\<lambda>x. decade_minor_positions_ieee lg (Fin x))
                          (grid_positions (real k) limit (of_int (z + int k)))))"
      using True assms(4) "1.prems" by (intro "1.hyps") auto
    then show ?thesis
      using True assms(1,3,4) "1.prems"(1)
      by (subst grid_minor_loop_ieee.simps, subst grid_positions.simps)
         (simp add: decade_loop_ieee a)
  next
    case False
    then show ?thesis
      using "1.prems"(1)
      by (subst grid_minor_loop_ieee.simps, subst grid_positions.simps) simp
  qed
qed

lemma lower_floor_whole:
  assumes "0 < k" "real k \<le> 2 ^ 50" "\<bar>l\<bar> \<le> 2 ^ 50"
  shows "fmul (dfloor (fdiv (Fin l) (Fin (real k)))) (Fin (real k)) =
           Fin (of_int (\<lfloor>round_to_binary64 (l / real k)\<rfloor> * int k))"
    and "- (2 ^ 52) \<le> \<lfloor>round_to_binary64 (l / real k)\<rfloor> * int k"
proof -
  define q where "q = round_to_binary64 (l / real k)"
  define j where "j = \<lfloor>q\<rfloor>"
  have k1: "1 \<le> real k" using assms(1) by simp
  have "\<bar>l / real k\<bar> = \<bar>l\<bar> / real k"
    by simp
  also have "\<dots> \<le> \<bar>l\<bar>"
    using k1 by (simp add: divide_le_eq mult_le_cancel_left1)
  finally have lk: "\<bar>l / real k\<bar> \<le> 2 ^ 50"
    using assms(3) by simp
  have "(2::real) ^ 50 \<le> 2 powi 1023"
    by simp
  then have "\<bar>l / real k\<bar> \<le> 2 powi 1023"
    using lk by (rule order_trans [rotated])
  then have d: "fdiv (Fin l) (Fin (real k)) = Fin q"
    using dround_finite [of "l / real k"] assms(1) by (simp add: fdiv_def q_def)
  have "\<bar>q - l / real k\<bar> \<le> 2 powi (- 53) * \<bar>l / real k\<bar> + 2 powi (- 1075)"
    unfolding q_def by (rule round_to_binary64_error)
  also have "\<dots> \<le> 2 powi (- 53) * 2 ^ 50 + 2 powi (- 1075)"
    using lk by (intro add_right_mono mult_left_mono) auto
  also have "\<dots> \<le> 1"
    by (simp add: power_int_minus field_simps)
  finally have e: "\<bar>q - l / real k\<bar> \<le> 1" .
  have "\<bar>real_of_int j\<bar> \<le> \<bar>q\<bar> + 1"
    unfolding j_def by linarith
  moreover have "\<bar>q\<bar> \<le> \<bar>l / real k\<bar> + 1"
    using e by linarith
  ultimately have "\<bar>real_of_int j\<bar> \<le> \<bar>l / real k\<bar> + 2"
    by linarith
  then have "\<bar>real_of_int j\<bar> \<le> \<bar>l\<bar> / real k + 2"
    by simp
  then have "\<bar>real_of_int j\<bar> * real k \<le> (\<bar>l\<bar> / real k + 2) * real k"
    by (intro mult_right_mono) auto
  also have "\<dots> = \<bar>l\<bar> + 2 * real k"
    using assms(1) by (simp add: field_simps)
  also have "\<dots> \<le> 2 ^ 50 + 2 * 2 ^ 50"
    using assms(2,3) by (intro add_mono mult_left_mono) auto
  finally have "\<bar>real_of_int (j * int k)\<bar> \<le> real_of_int (2 ^ 50 + 2 * 2 ^ 50)"
    by (simp add: abs_mult)
  then have b: "\<bar>j * int k\<bar> \<le> 2 ^ 50 + 2 * 2 ^ 50"
    by (simp only: of_int_le_iff flip: of_int_abs)
  then have "\<bar>j * int k\<bar> < 2 ^ 53"
    by simp
  then have "dround (Fin (of_int (j * int k))) = Fin (of_int (j * int k))"
    by (rule dround_of_int)
  then show "fmul (dfloor (fdiv (Fin l) (Fin (real k)))) (Fin (real k)) =
           Fin (of_int (\<lfloor>round_to_binary64 (l / real k)\<rfloor> * int k))"
    unfolding d q_def [symmetric] by (simp add: fmul_def j_def)
  show "- (2 ^ 52) \<le> \<lfloor>round_to_binary64 (l / real k)\<rfloor> * int k"
    using b unfolding j_def q_def by simp
qed

text \<open>A loop that starts at \<open>-\<infinity>\<close> stays there.\<close>

lemma major_loop_from_minus_infinity:
  "grid_major_loop (Fin i) (Fin limit) NInf path = None"
proof (rule ccontr)
  assume "grid_major_loop (Fin i) (Fin limit) NInf path \<noteq> None"
  then obtain r where r: "grid_major_loop (Fin i) (Fin limit) NInf path = Some r" by auto
  have "\<not> (isfinite (Fin i) \<and> isfinite (Fin limit) \<and> NInf = NInf)"
  proof (rule grid_major_loop.raw_induct
      [where P = "\<lambda>interval limit xy path r.
                    \<not> (isfinite interval \<and> isfinite limit \<and> xy = NInf)", OF _ r])
    fix loop interval limit xy path r
    assume IH: "\<And>interval limit xy path r. loop interval limit xy path = Some r \<Longrightarrow>
                  \<not> (isfinite interval \<and> isfinite limit \<and> xy = NInf)"
      and body: "(if dle xy limit
                  then loop interval limit (dadd xy interval) (path @ [xy])
                  else Some path) = Some r"
    show "\<not> (isfinite interval \<and> isfinite limit \<and> xy = NInf)"
    proof
      assume a: "isfinite interval \<and> isfinite limit \<and> xy = NInf"
      then obtain c l where c: "interval = Fin c" "limit = Fin l" "xy = NInf"
        by (auto simp: isfinite_iff)
      then have "loop interval limit NInf (path @ [xy]) = Some r"
        using body by simp
      then show False using IH a by blast
    qed
  qed
  then show False by simp
qed

lemma major_loop_ieee_from_minus_infinity:
  "grid_major_loop_ieee (Fin i) (Fin limit) NInf path = None"
proof (rule ccontr)
  assume "grid_major_loop_ieee (Fin i) (Fin limit) NInf path \<noteq> None"
  then obtain r where r: "grid_major_loop_ieee (Fin i) (Fin limit) NInf path = Some r" by auto
  have "\<not> (isfinite (Fin i) \<and> isfinite (Fin limit) \<and> NInf = NInf)"
  proof (rule grid_major_loop_ieee.raw_induct
      [where P = "\<lambda>interval limit xy path r.
                    \<not> (isfinite interval \<and> isfinite limit \<and> xy = NInf)", OF _ r])
    fix loop interval limit xy path r
    assume IH: "\<And>interval limit xy path r. loop interval limit xy path = Some r \<Longrightarrow>
                  \<not> (isfinite interval \<and> isfinite limit \<and> xy = NInf)"
      and body: "(if dle xy limit
                  then loop interval limit (fadd xy interval) (path @ [xy])
                  else Some path) = Some r"
    show "\<not> (isfinite interval \<and> isfinite limit \<and> xy = NInf)"
    proof
      assume a: "isfinite interval \<and> isfinite limit \<and> xy = NInf"
      then obtain c l where c: "interval = Fin c" "limit = Fin l" "xy = NInf"
        by (auto simp: isfinite_iff)
      then have "loop interval limit NInf (path @ [xy]) = Some r"
        using body by (simp add: fadd_def)
      then show False using IH a by blast
    qed
  qed
  then show False by simp
qed

text \<open>
  Claim C8, as the specification states it: on every axis in decade mode with
  \<^verbatim>\<open>minor_divisions\<close> nonzero, drawing the grid generates 8 minor grid positions within
  each major decade. It fails on an axis whose lower bound is 0. A new axis has the bounds
  0 and 1 and 5 minor divisions; set to decade mode, its \<open>lower_mode\<close> is
  \<open>log10(0) = -\<infinity>\<close>. The loop of the major grid lines starts at \<open>-\<infinity>\<close> and stays there:
  \<^verbatim>\<open>poc_axis_draw_grid\<close> does not return, and no minor grid line is drawn.
\<close>

theorem decade_minor_grid_counterexample:
  "(let ax = poc_axis_set_axis_mode poc_axis_init POC_AXIS_LOG_DECADE
    in axis_mode ax = POC_AXIS_LOG_DECADE \<and> minor_divisions ax = 5 \<and>
       lower_bound ax = Fin 0 \<and> lower_mode ax = NInf \<and> upper_mode ax = Fin 0 \<and>
       major_interval ax = Fin 10000 \<and>
       poc_axis_draw_grid_ieee dlog ax = None \<and> poc_axis_draw_grid ax = None)"
proof -
  let ?ax = "poc_axis_set_axis_mode poc_axis_init POC_AXIS_LOG_DECADE"
  have f: "axis_mode ?ax = POC_AXIS_LOG_DECADE" "minor_divisions ?ax = 5"
    "lower_bound ?ax = Fin 0" "lower_mode ?ax = NInf" "upper_mode ?ax = Fin 0"
    "major_interval ?ax = Fin 10000"
    by (simp_all add: poc_axis_set_axis_mode_def poc_axis_init_def poc_axis_update_bounds_def
        Let_def dge_def dsub_def)
  have "poc_axis_draw_grid ?ax = None"
    unfolding poc_axis_draw_grid_def Let_def f
    by (simp add: major_loop_from_minus_infinity)
  moreover have "poc_axis_draw_grid_ieee dlog ?ax = None"
    unfolding poc_axis_draw_grid_ieee_def Let_def f
    by (simp add: fdiv_def fmul_def major_loop_ieee_from_minus_infinity)
  ultimately show ?thesis using f by (simp add: Let_def)
qed

text \<open>
  Claim C8, amended: on an axis in decade mode with \<^verbatim>\<open>minor_divisions\<close> nonzero, whose
  mode-space bounds \<open>lower_mode\<close> and \<open>upper_mode\<close> are finite, of magnitude at most
  \<open>2 ^ 50\<close>, and whose major interval is a positive whole number, at most \<open>2 ^ 50\<close>,
  \<^verbatim>\<open>poc_axis_draw_grid\<close> returns, and the minor grid lines it asks for are exactly 8 for
  each major position \<open>xy\<close> the minor loop visits, at \<open>xy + log10(2)\<close>, ...,
  \<open>xy + log10(9)\<close> (the sums rounded). The positions visited are
  \<open>floor(lower_mode / major_interval) * major_interval\<close>, the quotient rounded, and every
  further step of the major interval up to \<open>upper_mode\<close>.
\<close>

theorem decade_minor_grid:
  assumes "axis_mode priv = POC_AXIS_LOG_DECADE" "minor_divisions priv \<noteq> 0"
    and "lower_mode priv = Fin l" "upper_mode priv = Fin u" "\<bar>l\<bar> \<le> 2 ^ 50" "\<bar>u\<bar> \<le> 2 ^ 50"
    and "major_interval priv = Fin (real k)" "0 < k" "k \<le> 2 ^ 50"
  shows "(let xy0 = of_int \<lfloor>round_to_binary64 (l / real k)\<rfloor> * real k
          in poc_axis_draw_grid_ieee lg priv =
               Some (map Fin (grid_positions (real k) (of_int \<lceil>u\<rceil>) xy0),
                     concat (map (\<lambda>xy. decade_minor_positions_ieee lg (Fin xy))
                               (grid_positions (real k) u xy0)))) \<and>
         decade_minor_positions_ieee lg xy =
           [fadd xy (lg 10 (Fin 2)), fadd xy (lg 10 (Fin 3)), fadd xy (lg 10 (Fin 4)),
            fadd xy (lg 10 (Fin 5)), fadd xy (lg 10 (Fin 6)), fadd xy (lg 10 (Fin 7)),
            fadd xy (lg 10 (Fin 8)), fadd xy (lg 10 (Fin 9))]"
proof
  define z where "z = \<lfloor>round_to_binary64 (l / real k)\<rfloor> * int k"
  have "real k \<le> real (2 ^ 50)"
    using assms(9) by (simp only: of_nat_le_iff)
  then have k: "real k \<le> 2 ^ 50"
    by simp
  have lf: "fmul (dfloor (fdiv (lower_mode priv) (major_interval priv))) (major_interval priv) =
            Fin (of_int z)"
    and z: "- (2 ^ 52) \<le> z"
    unfolding assms(3,7) z_def using lower_floor_whole [OF assms(8) k assms(5)] by simp_all
  have xy0: "of_int \<lfloor>round_to_binary64 (l / real k)\<rfloor> * real k = of_int z"
    by (simp add: z_def)
  have "u \<le> 2 ^ 50"
    using assms(6) by linarith
  then have u: "u \<le> 2 ^ 51"
    by (rule order_trans) simp
  have "real_of_int \<lceil>u\<rceil> \<le> u + 1"
    by linarith
  also have "\<dots> \<le> 2 ^ 50 + 2 ^ 50"
    using \<open>u \<le> 2 ^ 50\<close> by (intro add_mono) auto
  finally have c: "real_of_int \<lceil>u\<rceil> \<le> 2 ^ 51"
    by simp
  show "(let xy0 = of_int \<lfloor>round_to_binary64 (l / real k)\<rfloor> * real k
          in poc_axis_draw_grid_ieee lg priv =
               Some (map Fin (grid_positions (real k) (of_int \<lceil>u\<rceil>) xy0),
                     concat (map (\<lambda>xy. decade_minor_positions_ieee lg (Fin xy))
                               (grid_positions (real k) u xy0))))"
    unfolding Let_def xy0 poc_axis_draw_grid_ieee_def lf
    using assms(2) major_loop_ieee_whole [OF assms(8) k c z]
      minor_loop_ieee_whole [OF assms(1,4,7,8) k u z]
    by (simp add: assms(4,7))
  show "decade_minor_positions_ieee lg xy =
           [fadd xy (lg 10 (Fin 2)), fadd xy (lg 10 (Fin 3)), fadd xy (lg 10 (Fin 4)),
            fadd xy (lg 10 (Fin 5)), fadd xy (lg 10 (Fin 6)), fadd xy (lg 10 (Fin 7)),
            fadd xy (lg 10 (Fin 8)), fadd xy (lg 10 (Fin 9))]"
    by (simp add: decade_minor_positions_ieee_def)
qed

lemma log_10_100: "log 10 100 = (2::real)"
proof -
  have "log 10 (10 ^ 2) = (2::real)" by (subst log_pow_cancel) simp_all
  then show ?thesis by simp
qed

theorem decade_minor_grid_witness:
  "(let ax = poc_axis_configure poc_axis_init POC_AXIS_LOG_DECADE (Fin 1) (Fin 100)
    in axis_mode ax = POC_AXIS_LOG_DECADE \<and> minor_divisions ax = 5 \<and>
       lower_mode ax = Fin 0 \<and> upper_mode ax = Fin 2 \<and> major_interval ax = Fin 1 \<and>
       poc_axis_draw_grid_ieee dlog ax =
         Some ([Fin 0, Fin 1, Fin 2],
               decade_minor_positions_ieee dlog (Fin 0) @
               decade_minor_positions_ieee dlog (Fin 1) @
               decade_minor_positions_ieee dlog (Fin 2)) \<and>
       length (decade_minor_positions_ieee dlog (Fin 0) @
               decade_minor_positions_ieee dlog (Fin 1) @
               decade_minor_positions_ieee dlog (Fin 2)) = 24)"
proof -
  let ?ax = "poc_axis_configure poc_axis_init POC_AXIS_LOG_DECADE (Fin 1) (Fin 100)"
  have f: "axis_mode ?ax = POC_AXIS_LOG_DECADE" "minor_divisions ?ax \<noteq> 0"
    "lower_mode ?ax = Fin 0" "upper_mode ?ax = Fin 2"
    by (simp_all add: poc_axis_configure_def poc_axis_init_def poc_axis_update_bounds_def
        Let_def log_10_100 dge_def)
  have m: "major_interval ?ax = Fin (real 1)"
    by (simp add: poc_axis_configure_def poc_axis_init_def poc_axis_update_bounds_def
        Let_def log_10_100 dge_def)
  have d: "minor_divisions ?ax = 5"
    by (simp add: poc_axis_configure_def poc_axis_init_def poc_axis_update_bounds_def
        Let_def)
  have g: "grid_positions 1 2 0 = [0, 1, 2]"
    by (simp add: grid_positions.simps)
  have l: "length (decade_minor_positions_ieee dlog xy) = 8" for xy
    by (simp add: decade_minor_positions_ieee_def)
  show ?thesis
    using decade_minor_grid [OF f _ _ m, of dlog "Fin 0"] f m d g l
    by (simp add: Let_def)
qed

subsection \<open>The checks of the spline functions\<close>

text \<open>
  Claim C9: \<^verbatim>\<open>poc_spline_get_vector\<close> and \<^verbatim>\<open>poc_spline_get_points\<close> fail their check
  \<^verbatim>\<open>n_points >= 2\<close> (and return \<^verbatim>\<open>NULL\<close>) exactly for an array of fewer than 2 points; with
  2 or more points the check passes, and the functions return an array unless \<open>veclen\<close> is
  0, which fails the check of the new array's data.
\<close>

theorem spline_rejects_short_arrays:
  "(poc_spline_get_vector pts min_x max_x veclen = Inl N_POINTS_CHECK) = (length pts < 2) \<and>
   (poc_spline_get_points pts min_x max_x veclen = Inl N_POINTS_CHECK) = (length pts < 2) \<and>
   isl (poc_spline_get_vector pts min_x max_x veclen) = (length pts < 2 \<or> veclen = 0) \<and>
   isl (poc_spline_get_points pts min_x max_x veclen) = (length pts < 2 \<or> veclen = 0)"
  by (auto simp: poc_spline_get_vector_def poc_spline_get_points_def Let_def
      sized_new_has_data_def)

subsection \<open>Control points with finite coordinates\<close>




subsection \<open>The sample positions of the spline functions\<close>

lemma get_vector_loop_Fin:
  assumes "length array = veclen" "x \<le> veclen"
  shows "get_vector_loop n point y2v (Fin dx) veclen x (Fin (a + real x * dx)) array =
         take x array @ map (\<lambda>k. spline_eval n point y2v (Fin (a + real k * dx))) [x..<veclen]"
  using assms
proof (induction "veclen - x" arbitrary: x array)
  case 0
  then show ?case by (simp add: get_vector_loop.simps)
next
  case (Suc d)
  then have lt: "x < veclen" by simp
  let ?v = "spline_eval n point y2v (Fin (a + real x * dx))"
  have rx: "dadd (Fin (a + real x * dx)) (Fin dx) = Fin (a + real (x + 1) * dx)"
    by (simp add: algebra_simps)
  have ih: "get_vector_loop n point y2v (Fin dx) veclen (x + 1) (Fin (a + real (x + 1) * dx))
              (array[x := ?v]) =
            take (x + 1) (array[x := ?v]) @
            map (\<lambda>k. spline_eval n point y2v (Fin (a + real k * dx))) [x + 1..<veclen]"
    using Suc lt by (intro Suc.hyps(1)) auto
  have tk: "take (x + 1) (array[x := ?v]) = take x array @ [?v]"
    using lt Suc.prems by (simp add: take_Suc_conv_app_nth)
  have up: "[x..<veclen] = x # [x + 1..<veclen]"
    using lt by (simp add: upt_conv_Cons)
  show ?case
    using lt by (subst get_vector_loop.simps) (simp only: if_True rx ih tk up, simp)
qed

lemma get_points_loop_Fin:
  assumes "x \<le> veclen"
  shows "get_points_loop n point y2v (Fin dx) veclen x (Fin (a + real x * dx)) array =
         array @ map (\<lambda>k. \<lparr>point_x = Fin (a + real k * dx),
                            point_y = spline_eval n point y2v (Fin (a + real k * dx))\<rparr>)
                   [x..<veclen]"
  using assms
proof (induction "veclen - x" arbitrary: x array)
  case 0
  then show ?case by (simp add: get_points_loop.simps)
next
  case (Suc d)
  then have lt: "x < veclen" by simp
  let ?p = "\<lparr>point_x = Fin (a + real x * dx),
             point_y = spline_eval n point y2v (Fin (a + real x * dx))\<rparr>"
  have rx: "dadd (Fin (a + real x * dx)) (Fin dx) = Fin (a + real (x + 1) * dx)"
    by (simp add: algebra_simps)
  have ih: "get_points_loop n point y2v (Fin dx) veclen (x + 1) (Fin (a + real (x + 1) * dx))
              (array @ [?p]) =
            (array @ [?p]) @
            map (\<lambda>k. \<lparr>point_x = Fin (a + real k * dx),
                       point_y = spline_eval n point y2v (Fin (a + real k * dx))\<rparr>)
              [x + 1..<veclen]"
    using Suc lt by (intro Suc.hyps(1)) auto
  have up: "[x..<veclen] = x # [x + 1..<veclen]"
    using lt by (simp add: upt_conv_Cons)
  show ?case
    using lt by (subst get_points_loop.simps) (simp only: if_True rx ih up, simp)
qed

lemma sample_position_ends:
  "sample_position a b N 0 = a" "2 \<le> N \<Longrightarrow> sample_position a b N (N - 1) = b"
  by (simp_all add: sample_position_def)

lemma ddiv_Fin_of_nat:
  "2 \<le> N \<Longrightarrow> ddiv (Fin c) (Fin (real (N - 1))) = Fin (c / real (N - 1))"
  by simp

lemma veclen_dx:
  assumes "2 \<le> unat (veclen :: guint)"
  shows "ddiv (Fin c) (guint_to_double (veclen - 1)) = Fin (c / real (unat veclen - 1))"
proof -
  have "unat (veclen - 1) = unat veclen - 1"
    using assms by (simp add: unat_sub word_le_nat_alt)
  then show ?thesis
    unfolding guint_to_double_def using ddiv_Fin_of_nat [OF assms] by simp
qed

lemma get_vector_loop_positions:
  "get_vector_loop n point y2v (Fin ((b - a) / real (N - 1))) N 0 (Fin a)
     (replicate N (Fin 0)) =
   map (\<lambda>k. spline_eval n point y2v (Fin (sample_position a b N k))) [0..<N]"
  using get_vector_loop_Fin [of "replicate N (Fin 0)" N 0 n point y2v
      "(b - a) / real (N - 1)" a]
  by (simp add: sample_position_def)

lemma get_points_loop_positions:
  "get_points_loop n point y2v (Fin ((b - a) / real (N - 1))) N 0 (Fin a) [] =
   map (\<lambda>k. \<lparr>point_x = Fin (sample_position a b N k),
              point_y = spline_eval n point y2v (Fin (sample_position a b N k))\<rparr>) [0..<N]"
  using get_points_loop_Fin [of 0 N n point y2v "(b - a) / real (N - 1)" a "[]"]
  by (simp add: sample_position_def)

text \<open>
  Without rounding the sample positions are evenly spaced: for 2 or more control points
  and \<open>veclen \<ge> 2\<close> the samples are the spline evaluated at
  \<open>min_x + k * (max_x - min_x) / (veclen - 1)\<close> for \<open>k = 0, ..., veclen - 1\<close>, the first at
  \<open>min_x\<close>, the last at \<open>max_x\<close>.
\<close>

lemma spline_samples_exact:
  assumes "2 \<le> length pts" "2 \<le> unat veclen"
  shows "poc_spline_get_vector pts (Fin a) (Fin b) veclen =
           Inr (map (\<lambda>k. spline_eval (length pts) pts (spline_y2 pts)
                            (Fin (sample_position a b (unat veclen) k)))
                  [0..<unat veclen]) \<and>
         poc_spline_get_points pts (Fin a) (Fin b) veclen =
           Inr (map (\<lambda>k. \<lparr>point_x = Fin (sample_position a b (unat veclen) k),
                           point_y = spline_eval (length pts) pts (spline_y2 pts)
                                       (Fin (sample_position a b (unat veclen) k))\<rparr>)
                  [0..<unat veclen]) \<and>
         sample_position a b (unat veclen) 0 = a \<and>
         sample_position a b (unat veclen) (unat veclen - 1) = b"
proof -
  have nz: "veclen \<noteq> 0" using assms(2) by auto
  have dx: "ddiv (dsub (Fin b) (Fin a)) (guint_to_double (veclen - 1)) =
            Fin ((b - a) / real (unat veclen - 1))"
    by (simp only: dsub_Fin veclen_dx [OF assms(2)])
  have v: "poc_spline_get_vector pts (Fin a) (Fin b) veclen =
           Inr (map (\<lambda>k. spline_eval (length pts) pts (spline_y2 pts)
                            (Fin (sample_position a b (unat veclen) k)))
                  [0..<unat veclen])"
    unfolding poc_spline_get_vector_def Let_def dx get_vector_loop_positions spline_y2_def
    using assms(1) nz by (simp add: sized_new_has_data_def)
  have p: "poc_spline_get_points pts (Fin a) (Fin b) veclen =
           Inr (map (\<lambda>k. \<lparr>point_x = Fin (sample_position a b (unat veclen) k),
                           point_y = spline_eval (length pts) pts (spline_y2 pts)
                                       (Fin (sample_position a b (unat veclen) k))\<rparr>)
                  [0..<unat veclen])"
    unfolding poc_spline_get_points_def Let_def dx get_points_loop_positions spline_y2_def
    using assms(1) nz by (simp add: sized_new_has_data_def)
  show ?thesis
    using v p sample_position_ends(1) sample_position_ends(2) [OF assms(2)] by simp
qed

text \<open>
  With rounding the loop visits \<open>min_x\<close>, \<open>min_x + dx\<close>, \<open>(min_x + dx) + dx\<close>, ..., every
  sum rounded, with \<open>dx\<close> the rounded quotient of the rounded difference
  \<open>max_x - min_x\<close> by \<open>veclen - 1\<close>.
\<close>

lemma length_accumulated_positions [simp]: "length (accumulated_positions rx dx k) = k"
  by (induction k arbitrary: rx) simp_all

lemma get_vector_loop_ieee_positions:
  assumes "length array = veclen" "x \<le> veclen"
  shows "get_vector_loop_ieee n point y2v dx veclen x rx array =
         take x array @ map (spline_eval_ieee n point y2v) (accumulated_positions rx dx (veclen - x))"
  using assms
proof (induction "veclen - x" arbitrary: x rx array)
  case 0
  then show ?case by (simp add: get_vector_loop_ieee.simps)
next
  case (Suc d)
  then have lt: "x < veclen" by simp
  let ?v = "spline_eval_ieee n point y2v rx"
  have ih: "get_vector_loop_ieee n point y2v dx veclen (x + 1) (fadd rx dx) (array[x := ?v]) =
            take (x + 1) (array[x := ?v]) @
            map (spline_eval_ieee n point y2v)
              (accumulated_positions (fadd rx dx) dx (veclen - (x + 1)))"
    using Suc lt by (intro Suc.hyps(1)) auto
  have tk: "take (x + 1) (array[x := ?v]) = take x array @ [?v]"
    using lt Suc.prems by (simp add: take_Suc_conv_app_nth)
  have up: "veclen - x = Suc (veclen - (x + 1))"
    using lt by simp
  show ?case
    using lt by (subst get_vector_loop_ieee.simps) (simp only: if_True ih tk up, simp)
qed

lemma get_points_loop_ieee_positions:
  assumes "x \<le> veclen"
  shows "get_points_loop_ieee n point y2v dx veclen x rx array =
         array @ map (\<lambda>r. \<lparr>point_x = r, point_y = spline_eval_ieee n point y2v r\<rparr>)
                   (accumulated_positions rx dx (veclen - x))"
  using assms
proof (induction "veclen - x" arbitrary: x rx array)
  case 0
  then show ?case by (simp add: get_points_loop_ieee.simps)
next
  case (Suc d)
  then have lt: "x < veclen" by simp
  let ?p = "\<lparr>point_x = rx, point_y = spline_eval_ieee n point y2v rx\<rparr>"
  have ih: "get_points_loop_ieee n point y2v dx veclen (x + 1) (fadd rx dx) (array @ [?p]) =
            (array @ [?p]) @
            map (\<lambda>r. \<lparr>point_x = r, point_y = spline_eval_ieee n point y2v r\<rparr>)
              (accumulated_positions (fadd rx dx) dx (veclen - (x + 1)))"
    using Suc lt by (intro Suc.hyps(1)) auto
  have up: "veclen - x = Suc (veclen - (x + 1))"
    using lt by simp
  show ?case
    using lt by (subst get_points_loop_ieee.simps) (simp only: if_True ih up, simp)
qed

lemma get_vector_ieee_positions:
  assumes "2 \<le> length pts" "veclen \<noteq> 0"
  shows "poc_spline_get_vector_ieee pts min_x max_x veclen =
           Inr (map (spline_eval_ieee (length pts) pts (spline_y2_ieee pts))
                  (accumulated_positions min_x
                     (fdiv (fsub max_x min_x) (guint_to_double (veclen - 1))) (unat veclen)))"
  using assms
  by (simp add: poc_spline_get_vector_ieee_def Let_def sized_new_has_data_def spline_y2_ieee_def
      get_vector_loop_ieee_positions)

lemma get_points_ieee_positions:
  assumes "2 \<le> length pts" "veclen \<noteq> 0"
  shows "poc_spline_get_points_ieee pts min_x max_x veclen =
           Inr (map (\<lambda>r. \<lparr>point_x = r,
                           point_y = spline_eval_ieee (length pts) pts (spline_y2_ieee pts) r\<rparr>)
                  (accumulated_positions min_x
                     (fdiv (fsub max_x min_x) (guint_to_double (veclen - 1))) (unat veclen)))"
  using assms
  by (simp add: poc_spline_get_points_ieee_def Let_def sized_new_has_data_def spline_y2_ieee_def
      get_points_loop_ieee_positions)

lemma unat_veclen_minus_1:
  assumes "2 \<le> unat (veclen :: guint)"
  shows "guint_to_double (veclen - 1) = Fin (real (unat veclen - 1))"
proof -
  have "unat (veclen - 1) = unat veclen - 1"
    using assms by (simp add: unat_sub word_le_nat_alt)
  then show ?thesis
    by (simp add: guint_to_double_def)
qed

text \<open>The positions of the loop drift from \<open>x0 + i * d\<close> by one rounding per step.\<close>

lemma positions_drift:
  assumes "\<And>m. m < N \<Longrightarrow> \<bar>x0 + real m * d\<bar> + real m * g \<le> K"
    and "K \<le> 2 powi 1023" "g = 2 powi (- 53) * K + 2 powi (- 1075)"
    and "j + k \<le> N" "\<bar>x - (x0 + real j * d)\<bar> \<le> real j * g"
  shows "\<exists>xs. accumulated_positions (Fin x) (Fin d) k = map Fin xs \<and>
              (\<forall>i<k. \<bar>xs ! i - (x0 + real (j + i) * d)\<bar> \<le> real (j + i) * g)"
  using assms(4,5)
proof (induction k arbitrary: j x)
  case 0
  then show ?case by simp
next
  case (Suc k)
  show ?case
  proof (cases "k = 0")
    case True
    have "accumulated_positions (Fin x) (Fin d) (Suc k) = map Fin [x]"
      using True by simp
    moreover have "\<forall>i<Suc k. \<bar>[x] ! i - (x0 + real (j + i) * d)\<bar> \<le> real (j + i) * g"
      using True Suc.prems(2) by simp
    ultimately show ?thesis by blast
  next
    case False
    then have m: "Suc j < N"
      using Suc.prems(1) by simp
    have g0: "0 \<le> g"
    proof -
      have "0 \<le> \<bar>x0 + real 0 * d\<bar> + real 0 * g" by simp
      then have "0 \<le> K" using assms(1) [of 0] m by simp
      then show ?thesis unfolding assms(3) by simp
    qed
    have "x + d = (x - (x0 + real j * d)) + (x0 + real (Suc j) * d)"
      by (simp add: algebra_simps)
    then have "\<bar>x + d\<bar> \<le> real j * g + \<bar>x0 + real (Suc j) * d\<bar>"
      using Suc.prems(2) by linarith
    also have "\<dots> \<le> \<bar>x0 + real (Suc j) * d\<bar> + real (Suc j) * g"
      using g0 by (simp add: algebra_simps)
    also have "\<dots> \<le> K"
      using assms(1) [OF m] .
    finally obtain r where r: "fadd (Fin x) (Fin d) = Fin r" "\<bar>r - (x + d)\<bar> \<le> g"
      using fadd_Fin_bounded [of x d K] assms(2,3) by blast
    have "r - (x0 + real (Suc j) * d) = (r - (x + d)) + (x - (x0 + real j * d))"
      by (simp add: algebra_simps)
    then have "\<bar>r - (x0 + real (Suc j) * d)\<bar> \<le> g + real j * g"
      using r(2) Suc.prems(2) by linarith
    then have "\<bar>r - (x0 + real (Suc j) * d)\<bar> \<le> real (Suc j) * g"
      by (simp add: algebra_simps)
    then obtain xs where xs: "accumulated_positions (Fin r) (Fin d) k = map Fin xs"
      "\<forall>i<k. \<bar>xs ! i - (x0 + real (Suc j + i) * d)\<bar> \<le> real (Suc j + i) * g"
      using Suc.IH [of "Suc j" r] Suc.prems(1) by auto
    have "accumulated_positions (Fin x) (Fin d) (Suc k) = map Fin (x # xs)"
      using r(1) xs(1) by simp
    moreover have "\<forall>i<Suc k. \<bar>(x # xs) ! i - (x0 + real (j + i) * d)\<bar> \<le> real (j + i) * g"
    proof (intro allI impI)
      fix i assume "i < Suc k"
      then show "\<bar>(x # xs) ! i - (x0 + real (j + i) * d)\<bar> \<le> real (j + i) * g"
        using xs(2) Suc.prems(2) by (cases i) auto
    qed
    ultimately show ?thesis by blast
  qed
qed

lemma sample_position_bounded:
  assumes "\<bar>lo\<bar> \<le> B" "\<bar>hi\<bar> \<le> B" "m < N"
  shows "\<bar>sample_position lo hi N m\<bar> \<le> B"
proof -
  define l where "l = real m / real (N - 1)"
  have l: "0 \<le> l" "l \<le> 1"
    using assms(3) by (simp_all add: l_def divide_le_eq)
  have "sample_position lo hi N m = (1 - l) * lo + l * hi"
    by (simp add: sample_position_def l_def algebra_simps diff_divide_distrib)
  also have "\<bar>\<dots>\<bar> \<le> \<bar>(1 - l) * lo\<bar> + \<bar>l * hi\<bar>"
    by (rule abs_triangle_ineq)
  also have "\<dots> = (1 - l) * \<bar>lo\<bar> + l * \<bar>hi\<bar>"
    using l by (simp add: abs_mult)
  also have "\<dots> \<le> (1 - l) * B + l * B"
    using l assms(1,2) by (intro add_mono mult_left_mono) auto
  finally show ?thesis
    by (simp add: algebra_simps)
qed

lemma sample_positions_rounded:
  assumes "2 \<le> N" "N \<le> 2 ^ 32" "\<bar>lo\<bar> \<le> B" "\<bar>hi\<bar> \<le> B" "B \<le> 2 ^ 1021"
  shows "\<exists>xs. accumulated_positions (Fin lo)
                (fdiv (fsub (Fin hi) (Fin lo)) (Fin (real (N - 1)))) N = map Fin xs \<and>
              (\<forall>i<N. \<bar>xs ! i - sample_position lo hi N i\<bar> \<le>
                       real i * (2 powi (- 50) * B + 2 powi (- 1072)))"
proof -
  define u :: real where "u = 2 powi (- 53)"
  define h :: real where "h = 2 powi (- 1075)"
  define th :: real where "th = 2 powi (- 1040)"
  define K where "K = 2 * B + th"
  define g where "g = u * K + h"
  define n1 where "n1 = real (N - 1)"
  define D where "D = (hi - lo) / n1"
  define dl where "dl = 5 * u * B + 3 * h"
  have B0: "0 \<le> B" using assms(3) by linarith
  have u: "0 < u" "2 * u \<le> 1" "u \<le> 1" and h: "0 < h" and th: "0 < th"
    by (simp_all add: u_def h_def th_def power_int_minus field_simps)
  have n1: "1 \<le> n1" "n1 \<le> 2 ^ 32"
    using assms(1,2) by (simp_all add: n1_def of_nat_diff le_diff_conv)
  have K1023: "K \<le> 2 powi 1023"
  proof -
    have "2 * 2 ^ 1021 + th \<le> (2::real) powi 1023"
      by (simp add: th_def power_int_minus field_simps)
    then show ?thesis
      unfolding K_def using assms(5) by linarith
  qed
  have K0: "0 \<le> K" using B0 th by (simp add: K_def)
  have g0: "0 \<le> g" using u K0 h by (simp add: g_def)
  have uB: "0 \<le> u * B" using u B0 by simp
  \<comment> \<open>the difference of the ends\<close>
  define d1 where "d1 = round_to_binary64 (hi - lo)"
  have hl: "\<bar>hi - lo\<bar> \<le> 2 * B"
    using assms(3,4) by linarith
  have "2 * B \<le> K" using th by (simp add: K_def)
  then have "\<bar>hi - lo\<bar> \<le> 2 powi 1023"
    using hl K1023 by linarith
  then have d1: "fsub (Fin hi) (Fin lo) = Fin d1"
    using dround_finite [of "hi - lo"] by (simp add: fsub_def d1_def)
  have "\<bar>d1 - (hi - lo)\<bar> \<le> u * \<bar>hi - lo\<bar> + h"
    unfolding d1_def u_def h_def by (rule round_to_binary64_error)
  also have "\<dots> \<le> u * (2 * B) + h"
    using hl u by (intro add_right_mono mult_left_mono) auto
  finally have e1: "\<bar>d1 - (hi - lo)\<bar> \<le> 2 * (u * B) + h"
    by (simp add: algebra_simps)
  \<comment> \<open>the step\<close>
  define y where "y = d1 / n1"
  define dx where "dx = round_to_binary64 y"
  have "\<bar>y\<bar> = \<bar>d1\<bar> / n1"
    using n1 by (simp add: y_def)
  also have "\<dots> \<le> \<bar>d1\<bar>"
    using n1 by (simp add: divide_le_eq mult_le_cancel_left1)
  finally have y1: "\<bar>y\<bar> \<le> 2 * B + (2 * (u * B) + h)"
    using e1 hl by linarith
  have y1023: "\<bar>y\<bar> \<le> 2 powi 1023"
  proof -
    have "2 * 2 ^ 1021 + (2 * (u * 2 ^ 1021) + h) \<le> (2::real) powi 1023"
      by (simp add: u_def h_def power_int_minus field_simps)
    moreover have "u * B \<le> u * 2 ^ 1021"
      using assms(5) u by (intro mult_left_mono) auto
    ultimately show ?thesis
      using y1 assms(5) by linarith
  qed
  have "ddiv (Fin d1) (Fin n1) = Fin y"
    using n1 by (simp add: y_def)
  then have dx: "fdiv (Fin d1) (Fin n1) = Fin dx"
    using dround_finite [OF y1023] by (simp add: fdiv_def dx_def)
  have "\<bar>dx - y\<bar> \<le> u * \<bar>y\<bar> + h"
    unfolding dx_def u_def h_def by (rule round_to_binary64_error)
  also have "\<dots> \<le> u * (2 * B + (2 * (u * B) + h)) + h"
    using y1 u by (intro add_right_mono mult_left_mono) auto
  finally have e2: "\<bar>dx - y\<bar> \<le> u * (2 * B + (2 * (u * B) + h)) + h" .
  have "\<bar>y - D\<bar> = \<bar>d1 - (hi - lo)\<bar> / n1"
    using n1 by (simp add: y_def D_def diff_divide_distrib [symmetric])
  also have "\<dots> \<le> \<bar>d1 - (hi - lo)\<bar>"
    using n1 by (simp add: divide_le_eq mult_le_cancel_left1)
  finally have e3: "\<bar>y - D\<bar> \<le> 2 * (u * B) + h"
    using e1 by linarith
  have dl: "\<bar>dx - D\<bar> \<le> dl"
  proof -
    have "(2 * u) * (u * B) \<le> 1 * (u * B)"
      using u(2) uB by (intro mult_right_mono) auto
    then have "u * (2 * (u * B)) \<le> u * B"
      by (simp add: algebra_simps)
    moreover have "u * h \<le> h"
      using u h by simp
    moreover have "\<bar>dx - D\<bar> \<le> \<bar>dx - y\<bar> + \<bar>y - D\<bar>"
      by linarith
    ultimately show ?thesis
      using e2 e3 unfolding dl_def by (simp add: algebra_simps)
  qed
  have dl0: "0 \<le> dl" using dl by linarith
  \<comment> \<open>the magnitude of the exact sums\<close>
  have big: "2 ^ 32 * (dl + g) \<le> B + th"
  proof -
    have "2 ^ 32 * (dl + g) = (2 ^ 32 * 7 * u) * B + 2 ^ 32 * (4 * h + u * th)"
      by (simp add: dl_def g_def K_def algebra_simps)
    moreover have "(2 ^ 32 * 7 * u) * B \<le> 1 * B"
      using B0 by (intro mult_right_mono) (simp_all add: u_def power_int_minus field_simps)
    moreover have "2 ^ 32 * (4 * h + u * th) \<le> th"
      by (simp add: u_def h_def th_def power_int_minus field_simps)
    ultimately show ?thesis by linarith
  qed
  have pos: "sample_position lo hi N m = lo + real m * D" for m
    by (simp add: sample_position_def D_def n1_def)
  have H1: "\<bar>lo + real m * dx\<bar> + real m * g \<le> K" if "m < N" for m
  proof -
    have "m \<le> 2 ^ 32"
      using that assms(2) by simp
    then have "real m \<le> real (2 ^ 32)"
      by (simp only: of_nat_le_iff)
    then have m: "real m \<le> 2 ^ 32"
      by simp
    have "lo + real m * dx = (lo + real m * D) + real m * (dx - D)"
      by (simp add: algebra_simps)
    then have "\<bar>lo + real m * dx\<bar> \<le> \<bar>lo + real m * D\<bar> + \<bar>real m * (dx - D)\<bar>"
      by linarith
    also have "\<bar>real m * (dx - D)\<bar> = real m * \<bar>dx - D\<bar>"
      by (simp add: abs_mult)
    also have "real m * \<bar>dx - D\<bar> \<le> real m * dl"
      using dl by (intro mult_left_mono) auto
    also have "\<bar>lo + real m * D\<bar> \<le> B"
      using sample_position_bounded [OF assms(3,4) that] unfolding pos .
    finally have "\<bar>lo + real m * dx\<bar> + real m * g \<le> B + real m * (dl + g)"
      by (simp add: algebra_simps)
    also have "real m * (dl + g) \<le> 2 ^ 32 * (dl + g)"
      using m dl0 g0 by (intro mult_right_mono) auto
    finally show ?thesis
      using big unfolding K_def by linarith
  qed
  obtain xs where xs: "accumulated_positions (Fin lo) (Fin dx) N = map Fin xs"
    "\<forall>i<N. \<bar>xs ! i - (lo + real (0 + i) * dx)\<bar> \<le> real (0 + i) * g"
    using positions_drift [of N lo dx g K 0 N lo] H1 K1023
    unfolding g_def u_def h_def by auto
  have fin: "\<bar>xs ! i - sample_position lo hi N i\<bar> \<le>
             real i * (2 powi (- 50) * B + 2 powi (- 1072))" if "i < N" for i
  proof -
    have "xs ! i - (lo + real i * D) = (xs ! i - (lo + real i * dx)) + real i * (dx - D)"
      by (simp add: algebra_simps)
    then have "\<bar>xs ! i - (lo + real i * D)\<bar> \<le>
               \<bar>xs ! i - (lo + real i * dx)\<bar> + \<bar>real i * (dx - D)\<bar>"
      by linarith
    also have "\<bar>real i * (dx - D)\<bar> = real i * \<bar>dx - D\<bar>"
      by (simp add: abs_mult)
    also have "real i * \<bar>dx - D\<bar> \<le> real i * dl"
      using dl by (intro mult_left_mono) auto
    also have "\<bar>xs ! i - (lo + real i * dx)\<bar> \<le> real i * g"
      using xs(2) that by simp
    finally have "\<bar>xs ! i - (lo + real i * D)\<bar> \<le> real i * (g + dl)"
      by (simp add: algebra_simps)
    also have "g + dl \<le> 2 powi (- 50) * B + 2 powi (- 1072)"
    proof -
      have "g + dl = 7 * u * B + (u * th + 4 * h)"
        by (simp add: g_def dl_def K_def algebra_simps)
      moreover have "7 * u * B \<le> 2 powi (- 50) * B"
        using B0 by (intro mult_right_mono) (simp_all add: u_def power_int_minus field_simps)
      moreover have "u * th + 4 * h \<le> 2 powi (- 1072)"
        by (simp add: u_def h_def th_def power_int_minus field_simps)
      ultimately show ?thesis by linarith
    qed
    finally show ?thesis
      unfolding pos by (simp add: mult_left_mono)
  qed
  show ?thesis
    using xs(1) fin d1 dx unfolding n1_def by auto
qed

text \<open>From 0 to 1 in 11 samples: \<open>dx\<close> is the binary64 number nearest to 1/10, and the
  ten sums end at \<open>1 - 2 powi (- 53)\<close>.\<close>

lemma tenth: "fdiv (Fin 1) (Fin 10) = Fin (3602879701896397 / 36028797018963968)"
  using dround_eq [of "- 4" "1 / 10" 7205759403792794]
  by (simp add: fdiv_def round_half_even_def power_int_minus)

lemma step_0:
  "fadd (Fin 0) (Fin (3602879701896397 / 36028797018963968)) =
     Fin (3602879701896397 / 36028797018963968)"
  using dround_eq [of "- 4" "3602879701896397 / 36028797018963968" 7205759403792794]
  by (simp add: fadd_def round_half_even_def power_int_minus)

lemma step_1:
  "fadd (Fin (3602879701896397 / 36028797018963968)) (Fin (3602879701896397 / 36028797018963968)) =
     Fin (3602879701896397 / 18014398509481984)"
  using dround_eq [of "- 3" "3602879701896397 / 36028797018963968 +
      3602879701896397 / 36028797018963968" 7205759403792794]
  by (simp add: fadd_def round_half_even_def power_int_minus)

lemma step_2:
  "fadd (Fin (3602879701896397 / 18014398509481984)) (Fin (3602879701896397 / 36028797018963968)) =
     Fin (1351079888211149 / 4503599627370496)"
  using dround_eq [of "- 2" "3602879701896397 / 18014398509481984 +
      3602879701896397 / 36028797018963968" 5404319552844596]
  by (simp add: fadd_def round_half_even_def power_int_minus)

lemma step_3:
  "fadd (Fin (1351079888211149 / 4503599627370496)) (Fin (3602879701896397 / 36028797018963968)) =
     Fin (3602879701896397 / 9007199254740992)"
  using dround_eq [of "- 2" "1351079888211149 / 4503599627370496 +
      3602879701896397 / 36028797018963968" 7205759403792794]
  by (simp add: fadd_def round_half_even_def power_int_minus)

lemma step_4:
  "fadd (Fin (3602879701896397 / 9007199254740992)) (Fin (3602879701896397 / 36028797018963968)) =
     Fin (1 / 2)"
  using dround_eq [of "- 1" "3602879701896397 / 9007199254740992 +
      3602879701896397 / 36028797018963968" 4503599627370496]
  by (simp add: fadd_def round_half_even_def power_int_minus)

lemma step_5:
  "fadd (Fin (1 / 2)) (Fin (3602879701896397 / 36028797018963968)) =
     Fin (5404319552844595 / 9007199254740992)"
  using dround_eq [of "- 1" "1 / 2 + 3602879701896397 / 36028797018963968" 5404319552844595]
  by (simp add: fadd_def round_half_even_def power_int_minus)

lemma step_6:
  "fadd (Fin (5404319552844595 / 9007199254740992)) (Fin (3602879701896397 / 36028797018963968)) =
     Fin (3152519739159347 / 4503599627370496)"
  using dround_eq [of "- 1" "5404319552844595 / 9007199254740992 +
      3602879701896397 / 36028797018963968" 6305039478318694]
  by (simp add: fadd_def round_half_even_def power_int_minus)

lemma step_7:
  "fadd (Fin (3152519739159347 / 4503599627370496)) (Fin (3602879701896397 / 36028797018963968)) =
     Fin (7205759403792793 / 9007199254740992)"
  using dround_eq [of "- 1" "3152519739159347 / 4503599627370496 +
      3602879701896397 / 36028797018963968" 7205759403792793]
  by (simp add: fadd_def round_half_even_def power_int_minus)

lemma step_8:
  "fadd (Fin (7205759403792793 / 9007199254740992)) (Fin (3602879701896397 / 36028797018963968)) =
     Fin (2026619832316723 / 2251799813685248)"
  using dround_eq [of "- 1" "7205759403792793 / 9007199254740992 +
      3602879701896397 / 36028797018963968" 8106479329266892]
  by (simp add: fadd_def round_half_even_def power_int_minus)

lemma step_9:
  "fadd (Fin (2026619832316723 / 2251799813685248)) (Fin (3602879701896397 / 36028797018963968)) =
     Fin (9007199254740991 / 9007199254740992)"
  using dround_eq [of "- 1" "2026619832316723 / 2251799813685248 +
      3602879701896397 / 36028797018963968" 9007199254740991]
  by (simp add: fadd_def round_half_even_def power_int_minus)

lemma positions_0_1_11:
  "accumulated_positions (Fin 0) (Fin (3602879701896397 / 36028797018963968)) 11 =
     [Fin 0, Fin (3602879701896397 / 36028797018963968),
      Fin (3602879701896397 / 18014398509481984),
      Fin (1351079888211149 / 4503599627370496),
      Fin (3602879701896397 / 9007199254740992), Fin (1 / 2),
      Fin (5404319552844595 / 9007199254740992),
      Fin (3152519739159347 / 4503599627370496),
      Fin (7205759403792793 / 9007199254740992),
      Fin (2026619832316723 / 2251799813685248),
      Fin (9007199254740991 / 9007199254740992)]"
  by (simp add: eval_nat_numeral step_0 step_1 step_2 step_3 step_4 step_5 step_6 step_7 step_8
      step_9 del: dadd.simps)

text \<open>
  Claim C5, as the specification states it: the samples are taken at positions evenly
  spaced from \<open>min_x\<close> to \<open>max_x\<close>, both ends included. It fails: with the control points
  (0,0), (1,1), \<open>min_x = 0\<close>, \<open>max_x = 1\<close> and \<open>veclen = 11\<close> the positions are 0, 0.1, 0.2,
  0.30000000000000004, 0.4, 0.5, 0.6, 0.7, 0.7999999999999999, 0.8999999999999999 and
  0.9999999999999999: the last sample is taken at \<open>1 - 2 powi (- 53)\<close>, not at \<open>max_x\<close>.
\<close>

theorem spline_samples_counterexample:
  "(let pts = finite_points [(0, 0), (1, 1)];
        ps = [Fin 0, Fin (3602879701896397 / 36028797018963968),
              Fin (3602879701896397 / 18014398509481984),
              Fin (1351079888211149 / 4503599627370496),
              Fin (3602879701896397 / 9007199254740992), Fin (1 / 2),
              Fin (5404319552844595 / 9007199254740992),
              Fin (3152519739159347 / 4503599627370496),
              Fin (7205759403792793 / 9007199254740992),
              Fin (2026619832316723 / 2251799813685248),
              Fin (1 - 1 / 2 ^ 53)]
    in poc_spline_get_vector_ieee pts (Fin 0) (Fin 1) 11 =
         Inr (map (spline_eval_ieee 2 pts (spline_y2_ieee pts)) ps) \<and>
       poc_spline_get_points_ieee pts (Fin 0) (Fin 1) 11 =
         Inr (map (\<lambda>r. \<lparr>point_x = r,
                         point_y = spline_eval_ieee 2 pts (spline_y2_ieee pts) r\<rparr>) ps) \<and>
       sample_position 0 1 11 3 = 3 / 10 \<and> sample_position 0 1 11 10 = 1)"
proof -
  have dx: "fdiv (fsub (Fin 1) (Fin 0)) (guint_to_double (11 - 1)) =
            Fin (3602879701896397 / 36028797018963968)"
    using dround_of_int [of 1] tenth by (simp add: fsub_def guint_to_double_def)
  have len: "length (finite_points [(0 :: real, 0 :: real), (1, 1)]) = 2"
    by (simp add: finite_points_def)
  have n: "unat (11 :: guint) = 11"
    by simp
  show ?thesis
    unfolding Let_def
    using get_vector_ieee_positions [of "finite_points [(0, 0), (1, 1)]" 11 "Fin 0" "Fin 1"]
      get_points_ieee_positions [of "finite_points [(0, 0), (1, 1)]" 11 "Fin 0" "Fin 1"]
    unfolding dx len n positions_0_1_11
    by (simp add: sample_position_def)
qed

text \<open>
  Claim C5, amended: for 2 or more control points, \<open>veclen \<ge> 2\<close>, and \<open>min_x\<close>, \<open>max_x\<close> of
  magnitude at most \<open>B \<le> 2 ^ 1021\<close>, \<^verbatim>\<open>poc_spline_get_vector\<close> returns exactly \<open>veclen\<close>
  samples, the spline evaluated at the positions the loop visits;
  \<^verbatim>\<open>poc_spline_get_points\<close> returns the same samples with their positions. The first
  position is \<open>min_x\<close>. Position \<open>i\<close> is a finite number within
  \<open>i * (2 powi (- 50) * B + 2 powi (- 1072))\<close> of \<open>min_x + i * (max_x - min_x) / (veclen - 1)\<close>:
  the positions are evenly spaced from \<open>min_x\<close> to \<open>max_x\<close> up to the rounding that the
  additions accumulate.
\<close>

theorem spline_samples_rounded:
  assumes "2 \<le> length pts" "2 \<le> unat veclen"
    and "\<bar>lo\<bar> \<le> B" "\<bar>hi\<bar> \<le> B" "B \<le> 2 ^ 1021"
  shows "(let ps = accumulated_positions (Fin lo)
                     (fdiv (fsub (Fin hi) (Fin lo)) (guint_to_double (veclen - 1)))
                     (unat veclen)
          in poc_spline_get_vector_ieee pts (Fin lo) (Fin hi) veclen =
               Inr (map (spline_eval_ieee (length pts) pts (spline_y2_ieee pts)) ps) \<and>
             poc_spline_get_points_ieee pts (Fin lo) (Fin hi) veclen =
               Inr (map (\<lambda>r. \<lparr>point_x = r,
                     point_y = spline_eval_ieee (length pts) pts (spline_y2_ieee pts) r\<rparr>)
                      ps) \<and>
             length ps = unat veclen \<and> ps ! 0 = Fin lo \<and>
             (\<forall>i<unat veclen. \<exists>x. ps ! i = Fin x \<and>
                \<bar>x - sample_position lo hi (unat veclen) i\<bar> \<le>
                  real i * (2 powi (- 50) * B + 2 powi (- 1072))))"
proof -
  define N where "N = unat veclen"
  define ps where
    "ps = accumulated_positions (Fin lo)
            (fdiv (fsub (Fin hi) (Fin lo)) (guint_to_double (veclen - 1))) N"
  have nz: "veclen \<noteq> 0"
    using assms(2) by auto
  have "unat veclen < 2 ^ LENGTH(32)"
    by (rule unsigned_less)
  then have N: "2 \<le> N" "N \<le> 2 ^ 32"
    using assms(2) by (simp_all add: N_def)
  obtain xs where xs: "ps = map Fin xs"
    "\<forall>i<N. \<bar>xs ! i - sample_position lo hi N i\<bar> \<le>
             real i * (2 powi (- 50) * B + 2 powi (- 1072))"
    using sample_positions_rounded [OF N assms(3-5)]
    unfolding ps_def unat_veclen_minus_1 [OF assms(2)] N_def by blast
  have len: "length ps = N"
    by (simp add: ps_def)
  then have lxs: "length xs = N"
    using xs(1) by simp
  have "ps ! 0 = Fin lo"
    using N(1) unfolding ps_def by (cases N) simp_all
  moreover have "\<forall>i<N. \<exists>x. ps ! i = Fin x \<and>
                   \<bar>x - sample_position lo hi N i\<bar> \<le>
                     real i * (2 powi (- 50) * B + 2 powi (- 1072))"
    using xs lxs by simp
  ultimately show ?thesis
    unfolding Let_def
    using get_vector_ieee_positions [OF assms(1) nz, of "Fin lo" "Fin hi"]
      get_points_ieee_positions [OF assms(1) nz, of "Fin lo" "Fin hi"] len
    unfolding ps_def N_def by simp
qed

text \<open>From 0 to 3 in 4 samples every operation is exact: the positions are 0, 1, 2, 3.\<close>

lemma positions_0_3_4:
  "accumulated_positions (Fin 0) (fdiv (fsub (Fin 3) (Fin 0)) (guint_to_double (4 - 1))) 4 =
     [Fin 0, Fin 1, Fin 2, Fin 3]"
proof -
  have "fdiv (fsub (Fin 3) (Fin 0)) (guint_to_double (4 - 1)) = Fin 1"
    using dround_of_int [of 3] dround_of_int [of 1]
    by (simp add: fsub_def fdiv_def guint_to_double_def)
  then show ?thesis
    using dround_of_int [of 1] dround_of_int [of 2] dround_of_int [of 3]
    by (simp add: eval_nat_numeral fadd_def)
qed

theorem spline_samples_rounded_witness:
  "(let pts = finite_points [(0, 0), (1, 1), (2, 0), (3, 1)];
        ps = [Fin 0, Fin 1, Fin 2, Fin 3]
    in poc_spline_get_vector_ieee pts (Fin 0) (Fin 3) 4 =
         Inr (map (spline_eval_ieee 4 pts (spline_y2_ieee pts)) ps) \<and>
       poc_spline_get_points_ieee pts (Fin 0) (Fin 3) 4 =
         Inr (map (\<lambda>r. \<lparr>point_x = r,
                         point_y = spline_eval_ieee 4 pts (spline_y2_ieee pts) r\<rparr>) ps) \<and>
       length ps = 4 \<and> ps ! 0 = Fin 0 \<and>
       \<bar>3 - sample_position 0 3 4 3\<bar> \<le> real 3 * (2 powi (- 50) * 3 + 2 powi (- 1072)))"
proof -
  have len: "length (finite_points [(0 :: real, 0 :: real), (1, 1), (2, 0), (3, 1)]) = 4"
    by (simp add: finite_points_def)
  have n: "unat (4 :: guint) = 4"
    by simp
  have "\<forall>i<4. \<exists>x. [Fin 0, Fin 1, Fin 2, Fin 3] ! i = Fin x \<and>
          \<bar>x - sample_position 0 3 4 i\<bar> \<le> real i * (2 powi (- 50) * 3 + 2 powi (- 1072))"
    using spline_samples_rounded
      [of "finite_points [(0, 0), (1, 1), (2, 0), (3, 1)]" 4 0 3 3,
        unfolded len n positions_0_3_4 Let_def]
    by simp
  then have "\<exists>x. [Fin 0, Fin 1, Fin 2, Fin 3] ! 3 = Fin x \<and>
          \<bar>x - sample_position 0 3 4 3\<bar> \<le> real 3 * (2 powi (- 50) * 3 + 2 powi (- 1072))"
    by (rule allE [where x = 3]) simp
  then have b: "\<bar>3 - sample_position 0 3 4 3\<bar> \<le> real 3 * (2 powi (- 50) * 3 + 2 powi (- 1072))"
    by simp
  show ?thesis
    using spline_samples_rounded
      [of "finite_points [(0, 0), (1, 1), (2, 0), (3, 1)]" 4 0 3 3,
        unfolded len n positions_0_3_4 Let_def] b
    by (simp add: Let_def)
qed

subsection \<open>The spline interpolates its control points\<close>









subsection \<open>The cache of a spline dataset\<close>

lemma set_points_clears_cache:
  "dataset_cache (poc_dataset_set_points self new_points) = None"
  by (cases self)
     (simp_all add: poc_dataset_set_points_def poc_dataset_spline_invalidate_def Let_def)

lemma set_points_array_keeps_cache:
  "dataset_cache (poc_dataset_set_points_array self xs ys n) = dataset_cache self"
  by (cases self) (simp_all add: poc_dataset_set_points_array_def)

text \<open>
  Claim C6 (the code departs from it): every operation that replaces the control points
  of a spline dataset should clear the cache of resampled points.
  \<^verbatim>\<open>poc_dataset_set_points\<close> does (it calls \<^verbatim>\<open>poc_dataset_invalidate\<close>);
  \<^verbatim>\<open>poc_dataset_set_points_array\<close> does not. A new spline dataset gets the control
  points (0,0), (1,1) and is drawn at width 8 on a new axis: the cache holds 3 points.
  \<^verbatim>\<open>poc_dataset_set_points_array\<close> then replaces the control points by (0,5), (1,7): the
  cache is unchanged, and the next draw at width 8 keeps using it.
\<close>

theorem set_points_array_leaves_stale_cache:
  "(let d1 = poc_dataset_set_points poc_dataset_spline_new
               (Some (finite_points [(0, 0), (1, 1)]));
        d2 = poc_dataset_draw d1 poc_axis_init 8;
        d3 = poc_dataset_set_points_array d2 [Fin 0, Fin 1] [Fin 5, Fin 7] 2;
        d4 = poc_dataset_draw d3 poc_axis_init 8
    in dataset_cache d2 = Some (finite_points [(0, 0), (1 / 2, 1 / 2), (1, 1)]) \<and>
       poc_dataset_get_points d3 = Some (finite_points [(0, 5), (1, 7)]) \<and>
       dataset_cache d3 = dataset_cache d2 \<and> dataset_cache d4 = dataset_cache d2 \<and>
       dataset_cache (poc_dataset_set_points d2 (Some (finite_points [(0, 5), (1, 7)]))) = None)"
  by (simp add: poc_dataset_set_points_def poc_dataset_spline_new_def
      poc_dataset_spline_draw_cache_def poc_dataset_spline_invalidate_def Let_def
      poc_dataset_invalidate_real_def poc_axis_get_display_range_def poc_axis_get_range_def
      poc_axis_init_def poc_axis_update_bounds_def dge_def poc_spline_get_points_def
      sized_new_has_data_def finite_points_def spline_solve_def g_malloc_def
      spline_solve_forward.simps get_points_loop.simps spline_eval_def spline_eval_search.simps
      guint_to_double_def poc_dataset_set_points_array_def poc_dataset_get_points_def
      upt_rec dgt_def)

end
